theory Spec2Isabelle
  imports Complex_Main
begin

section \<open>JavaScript numbers\<close>

text \<open>
  The calculator in \<^verbatim>\<open>app.js\<close> computes with JavaScript numbers, that is IEEE 754
  binary64 values.  A finite number is represented by its real value, with the negative
  zero, the two infinities and NaN as separate values.  Every arithmetic operation
  computes the exact real result and rounds it to the nearest binary64 value (ties to
  even), so that overflow to an infinity and underflow to zero are part of the model.
\<close>

datatype jsnum = Fin real | NegZero | PInf | NInf | NaN

fun is_fin :: "jsnum \<Rightarrow> bool" where
  "is_fin (Fin x) = True"
| "is_fin NegZero = True"
| "is_fin PInf = False"
| "is_fin NInf = False"
| "is_fin NaN = False"

fun val :: "jsnum \<Rightarrow> real" where
  "val (Fin x) = x"
| "val NegZero = 0"
| "val PInf = 0"
| "val NInf = 0"
| "val NaN = 0"

text \<open>The sign bit.\<close>

fun neg :: "jsnum \<Rightarrow> bool" where
  "neg (Fin x) = (x < 0)"
| "neg NegZero = True"
| "neg PInf = False"
| "neg NInf = True"
| "neg NaN = False"

definition is_zero :: "jsnum \<Rightarrow> bool" where
  "is_zero a = (is_fin a \<and> val a = 0)"

definition is_inf :: "jsnum \<Rightarrow> bool" where
  "is_inf a = (a = PInf \<or> a = NInf)"

definition szero :: "bool \<Rightarrow> jsnum" where
  "szero s = (if s then NegZero else Fin 0)"

definition sinf :: "bool \<Rightarrow> jsnum" where
  "sinf s = (if s then NInf else PInf)"

subsection \<open>Rounding to binary64\<close>

text \<open>
  \<open>expo a\<close> is the binary exponent of the positive real \<open>a\<close>, kept within the exponent
  range of binary64: \<open>-1022\<close> for the subnormal range and at most \<open>1023\<close>.
\<close>

primrec expo_from :: "nat \<Rightarrow> int \<Rightarrow> real \<Rightarrow> int" where
  "expo_from 0 e a = e"
| "expo_from (Suc n) e a = (if a < 2 powi (e + 1) then e else expo_from n (e + 1) a)"

definition expo :: "real \<Rightarrow> int" where
  "expo a = expo_from 2045 (- 1022) a"

text \<open>Rounding a real to the nearest integer, a tie going to the even neighbour.\<close>

definition rne :: "real \<Rightarrow> int" where
  "rne m = (let f = \<lfloor>m\<rfloor>; r = m - of_int f
            in if r < 1 / 2 then f
               else if 1 / 2 < r then f + 1
               else if even f then f else f + 1)"

text \<open>
  \<open>rmag a\<close> rounds the positive real \<open>a\<close> to a significand of 53 bits: to a multiple
  of the unit in the last place of its binade.
\<close>

definition rmag :: "real \<Rightarrow> real" where
  "rmag a = of_int (rne (a / 2 powi (expo a - 52))) * 2 powi (expo a - 52)"

text \<open>
  \<open>fl x\<close> is the binary64 value nearest to the real \<open>x\<close>: a magnitude that rounds to
  \<open>2 ^ 1024\<close> or more becomes an infinity, and a magnitude that rounds to nothing
  becomes a zero with the sign of \<open>x\<close>.
\<close>

definition fl :: "real \<Rightarrow> jsnum" where
  "fl x = (if x = 0 then Fin 0
           else let r = rmag \<bar>x\<bar>
                in if 2 powi 1024 \<le> r then sinf (x < 0)
                   else if r = 0 then szero (x < 0)
                   else Fin (if x < 0 then - r else r))"

text \<open>A finite value is a binary64 value when rounding leaves it as it is.\<close>

fun is_double :: "jsnum \<Rightarrow> bool" where
  "is_double (Fin x) = (fl x = Fin x)"
| "is_double NegZero = True"
| "is_double PInf = True"
| "is_double NInf = True"
| "is_double NaN = True"

subsection \<open>Arithmetic\<close>

fun jneg :: "jsnum \<Rightarrow> jsnum" where
  "jneg (Fin x) = (if x = 0 then NegZero else Fin (- x))"
| "jneg NegZero = Fin 0"
| "jneg PInf = NInf"
| "jneg NInf = PInf"
| "jneg NaN = NaN"

definition jadd :: "jsnum \<Rightarrow> jsnum \<Rightarrow> jsnum" where
  "jadd a b =
     (if a = NaN \<or> b = NaN then NaN
      else if is_inf a then (if is_inf b \<and> a \<noteq> b then NaN else a)
      else if is_inf b then b
      else if val a + val b = 0 then szero (neg a \<and> neg b)
      else fl (val a + val b))"

definition jsub :: "jsnum \<Rightarrow> jsnum \<Rightarrow> jsnum" where
  "jsub a b = jadd a (jneg b)"

definition jmul :: "jsnum \<Rightarrow> jsnum \<Rightarrow> jsnum" where
  "jmul a b =
     (if a = NaN \<or> b = NaN then NaN
      else if is_inf a \<or> is_inf b
        then (if is_zero a \<or> is_zero b then NaN else sinf (neg a \<noteq> neg b))
      else if val a * val b = 0 then szero (neg a \<noteq> neg b)
      else fl (val a * val b))"

definition jdiv :: "jsnum \<Rightarrow> jsnum \<Rightarrow> jsnum" where
  "jdiv a b =
     (if a = NaN \<or> b = NaN then NaN
      else if is_inf a then (if is_inf b then NaN else sinf (neg a \<noteq> neg b))
      else if is_inf b then szero (neg a \<noteq> neg b)
      else if is_zero b then (if is_zero a then NaN else sinf (neg a \<noteq> neg b))
      else if val a = 0 then szero (neg a \<noteq> neg b)
      else fl (val a / val b))"

subsection \<open>Comparisons\<close>

text \<open>
  \<open>a < b\<close> and \<open>a <= b\<close> of JavaScript: false as soon as one side is NaN, and the two
  zeros compare equal.
\<close>

definition jlt :: "jsnum \<Rightarrow> jsnum \<Rightarrow> bool" where
  "jlt a b =
     (if a = NaN \<or> b = NaN then False
      else if a = PInf \<or> b = NInf then False
      else if a = NInf \<or> b = PInf then True
      else val a < val b)"

definition jle :: "jsnum \<Rightarrow> jsnum \<Rightarrow> bool" where
  "jle a b =
     (if a = NaN \<or> b = NaN then False
      else if a = NInf \<or> b = PInf then True
      else if a = PInf \<or> b = NInf then False
      else val a \<le> val b)"

definition jgt :: "jsnum \<Rightarrow> jsnum \<Rightarrow> bool" where
  "jgt a b = jlt b a"

definition jge :: "jsnum \<Rightarrow> jsnum \<Rightarrow> bool" where
  "jge a b = jle b a"

subsection \<open>Library functions\<close>

definition Number_isFinite :: "jsnum \<Rightarrow> bool" where
  "Number_isFinite a = is_fin a"

text \<open>\<^verbatim>\<open>Math.max\<close> and \<^verbatim>\<open>Math.min\<close>: NaN if an argument is NaN, and \<open>+0\<close> above \<open>-0\<close>.\<close>

definition Math_max :: "jsnum \<Rightarrow> jsnum \<Rightarrow> jsnum" where
  "Math_max a b =
     (if a = NaN \<or> b = NaN then NaN
      else if jlt a b then b
      else if jlt b a then a
      else if a = NegZero then b else a)"

definition Math_min :: "jsnum \<Rightarrow> jsnum \<Rightarrow> jsnum" where
  "Math_min a b =
     (if a = NaN \<or> b = NaN then NaN
      else if jlt a b then a
      else if jlt b a then b
      else if a = NegZero then a else b)"

text \<open>
  \<^verbatim>\<open>Math.log\<close>: NaN below zero, \<open>-Infinity\<close> at a zero, and the rounded natural logarithm
  otherwise (the language leaves the last bits of the result to the implementation).
\<close>

definition Math_log :: "jsnum \<Rightarrow> jsnum" where
  "Math_log a =
     (if a = NaN then NaN
      else if a = PInf then PInf
      else if a = NInf then NaN
      else if val a = 0 then NInf
      else if val a < 0 then NaN
      else fl (ln (val a)))"

section \<open>Strings\<close>

text \<open>
  A string is a list of characters; a character stands for one code unit below 256.
  \<^verbatim>\<open>trim\<close> and the conversion of a string to a number strip white space and line
  terminators at both ends: among the code units below 256 these are TAB, LF, VT, FF,
  CR, SP and NBSP.
\<close>

definition is_ws :: "char \<Rightarrow> bool" where
  "is_ws c = ((of_char c :: nat) \<in> {9, 10, 11, 12, 13, 32, 160})"

definition js_trim :: "string \<Rightarrow> string" where
  "js_trim s = rev (dropWhile is_ws (rev (dropWhile is_ws s)))"

text \<open>\<^verbatim>\<open>s.split(c)\<close> for a separator of one character.\<close>

fun js_split :: "char \<Rightarrow> string \<Rightarrow> string list" where
  "js_split c [] = [[]]"
| "js_split c (x # xs) =
     (if x = c then [] # js_split c xs
      else case js_split c xs of
             [] \<Rightarrow> [[x]]
           | w # ws \<Rightarrow> (x # w) # ws)"

subsection \<open>Conversion of a string to a number\<close>

definition digit_of :: "char \<Rightarrow> nat option" where
  "digit_of c =
     (let n = (of_char c :: nat)
      in if 48 \<le> n \<and> n \<le> 57 then Some (n - 48)
         else if 97 \<le> n \<and> n \<le> 102 then Some (n - 87)
         else if 65 \<le> n \<and> n \<le> 70 then Some (n - 55)
         else None)"

definition is_digit_in :: "nat \<Rightarrow> char \<Rightarrow> bool" where
  "is_digit_in base c = (case digit_of c of None \<Rightarrow> False | Some d \<Rightarrow> d < base)"

definition digits_val :: "nat \<Rightarrow> string \<Rightarrow> nat" where
  "digits_val base ds =
     foldl (\<lambda>n c. base * n + (case digit_of c of None \<Rightarrow> 0 | Some d \<Rightarrow> d)) 0 ds"

text \<open>The exponent part of a decimal literal: nothing, or \<open>e\<close>, a sign and digits.\<close>

definition parse_exponent :: "string \<Rightarrow> int option" where
  "parse_exponent s =
     (case s of
        [] \<Rightarrow> Some 0
      | c # r \<Rightarrow>
          if c = CHR ''e'' \<or> c = CHR ''E'' then
            (let minus = (r \<noteq> [] \<and> hd r = CHR ''-'');
                 ds = (if r \<noteq> [] \<and> (hd r = CHR ''+'' \<or> hd r = CHR ''-'') then tl r else r)
             in if ds \<noteq> [] \<and> list_all (is_digit_in 10) ds
                then Some (if minus then - int (digits_val 10 ds) else int (digits_val 10 ds))
                else None)
          else None)"

text \<open>
  An unsigned decimal literal: digits, an optional point and digits, an optional exponent,
  with a digit on at least one side of the point.  The result is the exact value.
\<close>

definition parse_decimal :: "string \<Rightarrow> real option" where
  "parse_decimal s =
     (let ip = takeWhile (is_digit_in 10) s;
          r1 = dropWhile (is_digit_in 10) s;
          point = (r1 \<noteq> [] \<and> hd r1 = CHR ''.'');
          fp = (if point then takeWhile (is_digit_in 10) (tl r1) else []);
          r2 = (if point then dropWhile (is_digit_in 10) (tl r1) else r1)
      in if ip = [] \<and> fp = [] then None
         else case parse_exponent r2 of
                None \<Rightarrow> None
              | Some e \<Rightarrow> Some (of_nat (digits_val 10 (ip @ fp)) * 10 powi (e - int (length fp))))"

text \<open>A binary, octal or hexadecimal integer literal; it takes no sign.\<close>

definition parse_radix :: "string \<Rightarrow> real option" where
  "parse_radix s =
     (case s of
        z # x # ds \<Rightarrow>
          (let base = (if x = CHR ''x'' \<or> x = CHR ''X'' then 16
                       else if x = CHR ''o'' \<or> x = CHR ''O'' then 8
                       else if x = CHR ''b'' \<or> x = CHR ''B'' then 2
                       else (0::nat))
           in if z = CHR ''0'' \<and> base \<noteq> 0 \<and> ds \<noteq> [] \<and> list_all (is_digit_in base) ds
              then Some (of_nat (digits_val base ds))
              else None)
      | _ \<Rightarrow> None)"

text \<open>
  \<^verbatim>\<open>Number(str)\<close> for a string: the empty string (after trimming) is \<open>0\<close>, a literal is
  its value rounded to binary64, and anything else is NaN.
\<close>

definition js_Number :: "string \<Rightarrow> jsnum" where
  "js_Number str =
     (let s = js_trim str
      in if s = [] then Fin 0
         else case parse_radix s of
                Some v \<Rightarrow> fl v
              | None \<Rightarrow>
                  (let minus = (hd s = CHR ''-'');
                       body = (if hd s = CHR ''+'' \<or> hd s = CHR ''-'' then tl s else s)
                   in if body = ''Infinity'' then sinf minus
                      else case parse_decimal body of
                             None \<Rightarrow> NaN
                           | Some v \<Rightarrow> (if minus then jneg (fl v) else fl v)))"

section \<open>The calculator\<close>

subsection \<open>Parsing helpers\<close>

text \<open>\<^verbatim>\<open>null\<close> is \<open>None\<close>.\<close>

definition parseProbability :: "string \<Rightarrow> string \<Rightarrow> jsnum option" where
  "parseProbability value format =
     (let x = js_Number value
      in if \<not> Number_isFinite x then None
         else if format = ''percent'' then Some (jdiv x (Fin 100))
         else Some x)"

definition parseNetOdds :: "string \<Rightarrow> string \<Rightarrow> jsnum option" where
  "parseNetOdds oddsStr format =
     (let s = js_trim oddsStr
      in if s = [] then None
         else if format = ''decimal'' then
           (let D = js_Number s
            in if \<not> Number_isFinite D \<or> jle D (Fin 1) then None
               else Some (jsub D (Fin 1)))
         else case js_split CHR ''/'' s of
                [x, y] \<Rightarrow>
                  (let A = js_Number (js_trim x);
                       B = js_Number (js_trim y)
                   in if \<not> Number_isFinite A \<or> \<not> Number_isFinite B
                         \<or> jle B (Fin 0) \<or> jle A (Fin 0)
                      then None
                      else Some (jdiv A B))
              | _ \<Rightarrow> None)"

definition clamp :: "jsnum \<Rightarrow> jsnum \<Rightarrow> jsnum \<Rightarrow> jsnum" where
  "clamp x mn mx = Math_min mx (Math_max mn x)"

subsection \<open>Core Kelly math\<close>

definition kellyFraction :: "jsnum \<Rightarrow> jsnum \<Rightarrow> jsnum" where
  "kellyFraction p b = (let q = jsub (Fin 1) p in jdiv (jsub (jmul b p) q) b)"

definition expectedLogGrowth :: "jsnum \<Rightarrow> jsnum \<Rightarrow> jsnum \<Rightarrow> jsnum option" where
  "expectedLogGrowth p b f =
     (let q = jsub (Fin 1) p;
          winFactor = jadd (Fin 1) (jmul f b);
          loseFactor = jsub (Fin 1) f
      in if jle winFactor (Fin 0) \<or> jle loseFactor (Fin 0) then None
         else Some (jadd (jmul p (Math_log winFactor)) (jmul q (Math_log loseFactor))))"

subsection \<open>The update\<close>

text \<open>
  \<^verbatim>\<open>update\<close> reads the values of the six input elements and writes the outputs.  The
  model takes the six strings and returns what \<^verbatim>\<open>update\<close> computes: the list of
  problems when there is one, and the numbers behind the output fields otherwise (the
  number of the source's literal \<^verbatim>\<open>0.9999\<close> is \<open>fl (9999 / 10000)\<close>).  The rendering
  of the numbers as text is left out.  \<open>problems_of\<close> is the validation of \<open>p\<close> and
  \<open>b\<close> in the order of the source, and \<open>compute\<close> is the computation that follows it.
  The last case of \<open>update\<close> does not occur: with no problem, \<open>p\<close> and \<open>b\<close> are numbers.
\<close>

record form =
  bankrollEl :: string
  pEl :: string
  pFormatEl :: string
  oddsEl :: string
  oddsFormatEl :: string
  fractionalEl :: string

record kelly =
  res_b :: jsnum
  res_q :: jsnum
  res_fStar :: jsnum
  res_fStarClamped :: jsnum
  res_fAppliedRaw :: jsnum
  res_fApplied :: jsnum
  res_stake :: "jsnum option"
  res_g :: "jsnum option"
  res_note :: bool

datatype outcome = Problems "string list" | Outputs kelly

definition problems_of :: "jsnum option \<Rightarrow> jsnum option \<Rightarrow> string list" where
  "problems_of p b =
     (if (case p of None \<Rightarrow> True | Some x \<Rightarrow> \<not> Number_isFinite x)
      then [''Probability (p) is missing or not a number.''] else [])
     @ (if (case p of None \<Rightarrow> False | Some x \<Rightarrow> jle x (Fin 0) \<or> jge x (Fin 1))
        then [''Probability (p) must be between 0 and 1 (exclusive).''] else [])
     @ (if (case b of None \<Rightarrow> True | Some y \<Rightarrow> \<not> Number_isFinite y)
        then [''Odds are missing/invalid (check format).''] else [])
     @ (if (case b of None \<Rightarrow> False | Some y \<Rightarrow> jle y (Fin 0))
        then [''Net odds (b) must be > 0.''] else [])"

definition compute :: "jsnum \<Rightarrow> jsnum \<Rightarrow> jsnum \<Rightarrow> string \<Rightarrow> kelly" where
  "compute p b k bankrollText =
     (let q = jsub (Fin 1) p;
          fStar = kellyFraction p b;
          fStarClamped = Math_max (Fin 0) fStar;
          fAppliedRaw = jmul k fStarClamped;
          fApplied = clamp fAppliedRaw (Fin 0) (fl (9999 / 10000));
          bankroll = (if bankrollText = [] then None else Some (js_Number bankrollText));
          stake = (case bankroll of
                     None \<Rightarrow> None
                   | Some m \<Rightarrow>
                       if Number_isFinite m \<and> jgt m (Fin 0) then Some (jmul m fApplied)
                       else None);
          g = expectedLogGrowth p b fApplied
      in \<lparr> res_b = b, res_q = q, res_fStar = fStar, res_fStarClamped = fStarClamped,
           res_fAppliedRaw = fAppliedRaw, res_fApplied = fApplied, res_stake = stake,
           res_g = g, res_note = jle fStar (Fin 0) \<rparr>)"

definition update :: "form \<Rightarrow> outcome" where
  "update inp =
     (let p = parseProbability (pEl inp) (pFormatEl inp);
          b = parseNetOdds (oddsEl inp) (oddsFormatEl inp);
          k = js_Number (fractionalEl inp);
          problems = problems_of p b
      in if problems \<noteq> [] then Problems problems
         else case (p, b) of
                (Some pv, Some bv) \<Rightarrow> Outputs (compute pv bv k (bankrollEl inp))
              | _ \<Rightarrow> Problems problems)"

section \<open>Scenarios of the specification\<close>

text \<open>
  \<open>approx d a c\<close>: the number \<open>a\<close> is finite and agrees with the decimal \<open>c\<close> to \<open>d\<close>
  decimal places, the reading of the specification's \<open>\<approx>\<close>.
\<close>

definition approx :: "nat \<Rightarrow> jsnum \<Rightarrow> real \<Rightarrow> bool" where
  "approx d a c = (is_fin a \<and> \<bar>val a - c\<bar> \<le> 1 / (2 * 10 ^ d))"

text \<open>
  Scenario 1 of the specification, the example of accumulated problems, and odds whose
  quotient is below the smallest positive binary64 value.
\<close>

definition scenario1 :: form where
  "scenario1 = \<lparr> bankrollEl = ''1000'', pEl = ''0.55'', pFormatEl = ''decimal'',
                   oddsEl = ''2.10'', oddsFormatEl = ''decimal'', fractionalEl = ''1'' \<rparr>"

definition scenario_abc :: form where
  "scenario_abc = \<lparr> bankrollEl = [], pEl = ''abc'', pFormatEl = ''decimal'',
                     oddsEl = ''0.5'', oddsFormatEl = ''decimal'', fractionalEl = ''1'' \<rparr>"

definition scenario_underflow :: form where
  "scenario_underflow = \<lparr> bankrollEl = [], pEl = ''0.55'', pFormatEl = ''decimal'',
                           oddsEl = ''1e-200/1e200'', oddsFormatEl = ''fractional'',
                           fractionalEl = ''1'' \<rparr>"

section \<open>Properties of rounding\<close>

subsection \<open>The exponent\<close>

lemma expo_from_below: "a < 2 powi (e + 1) \<Longrightarrow> expo_from n e a = e"
  by (cases n) simp_all

lemma expo_from_range: "e \<le> expo_from n e a \<and> expo_from n e a \<le> e + int n"
proof (induction n arbitrary: e)
  case 0
  show ?case by simp
next
  case (Suc n)
  from Suc.IH [of "e + 1"] show ?case by simp
qed

lemma expo_from_lower: "2 powi e \<le> a \<Longrightarrow> 2 powi (expo_from n e a) \<le> a"
proof (induction n arbitrary: e)
  case 0
  then show ?case by simp
next
  case (Suc n)
  show ?case
  proof (cases "a < 2 powi (e + 1)")
    case True
    with Suc.prems show ?thesis by simp
  next
    case False
    then have "2 powi (e + 1) \<le> a" by simp
    from Suc.IH [OF this] False show ?thesis by simp
  qed
qed

lemma expo_from_upper: "expo_from n e a < e + int n \<Longrightarrow> a < 2 powi (expo_from n e a + 1)"
proof (induction n arbitrary: e)
  case 0
  then show ?case by simp
next
  case (Suc n)
  show ?case
  proof (cases "a < 2 powi (e + 1)")
    case True
    then show ?thesis by simp
  next
    case False
    with Suc.prems have "expo_from n (e + 1) a < (e + 1) + int n" by simp
    from Suc.IH [OF this] False show ?thesis by simp
  qed
qed

lemma expo_range: "- 1022 \<le> expo a" "expo a \<le> 1023"
  using expo_from_range [of "- 1022" 2045 a] by (simp_all add: expo_def)

lemma expo_lower: "2 powi (- 1022) \<le> a \<Longrightarrow> 2 powi (expo a) \<le> a"
  unfolding expo_def by (rule expo_from_lower)

lemma expo_upper: "expo a < 1023 \<Longrightarrow> a < 2 powi (expo a + 1)"
  using expo_from_upper [of 2045 "- 1022" a] by (simp add: expo_def)

lemma powi2_mono: "i \<le> j \<Longrightarrow> (2::real) powi i \<le> 2 powi j"
  by (rule power_int_increasing) simp_all

lemma powi2_strict_mono: "i < j \<Longrightarrow> (2::real) powi i < 2 powi j"
  by (rule power_int_strict_increasing) simp_all

lemma powi2_pos: "0 < (2::real) powi i"
  by simp

text \<open>The exponent is determined by the binade.\<close>

lemma expo_eqI:
  assumes "2 powi k \<le> a \<or> k = - 1022" and "a < 2 powi (k + 1) \<or> k = 1023"
    and "- 1022 \<le> k" and "k \<le> 1023"
  shows "expo a = k"
proof (rule ccontr)
  assume ne: "expo a \<noteq> k"
  let ?e = "expo a"
  show False
  proof (cases "?e < k")
    case True
    then have "?e < 1023" using assms(4) by simp
    then have "a < 2 powi (?e + 1)" by (rule expo_upper)
    also have "\<dots> \<le> 2 powi k" using True by (intro powi2_mono) simp
    finally have "a < 2 powi k" .
    moreover have "k \<noteq> - 1022" using True expo_range(1) [of a] by simp
    ultimately show False using assms(1) by simp
  next
    case False
    with ne have gt: "k < ?e" by simp
    then have k: "k \<noteq> 1023" using expo_range(2) [of a] by simp
    with assms(2) have a: "a < 2 powi (k + 1)" by simp
    show False
    proof (cases "2 powi (- 1022) \<le> a")
      case True
      then have "2 powi ?e \<le> a" by (rule expo_lower)
      moreover have "(2::real) powi (k + 1) \<le> 2 powi ?e" using gt by (intro powi2_mono) simp
      ultimately show False using a by simp
    next
      case False
      then have "a < 2 powi (- 1022 + 1)"
        using powi2_strict_mono [of "- 1022" "- 1022 + 1"] by simp
      then have "expo a = - 1022" unfolding expo_def by (rule expo_from_below)
      with gt assms(3) show False by simp
    qed
  qed
qed

subsection \<open>Rounding to an integer\<close>

lemma rne_bounds: "\<lfloor>m\<rfloor> \<le> rne m" "rne m \<le> \<lfloor>m\<rfloor> + 1"
  by (simp_all add: rne_def Let_def)

lemma rne_of_int [simp]: "rne (of_int n) = n"
  by (simp add: rne_def)

lemma rne_ge_int:
  assumes "of_int n \<le> m"
  shows "n \<le> rne m"
proof -
  from assms have "n \<le> \<lfloor>m\<rfloor>" by (simp add: le_floor_iff)
  with rne_bounds(1) [of m] show ?thesis by simp
qed

lemma rne_le_int:
  assumes "m \<le> of_int n"
  shows "rne m \<le> n"
proof (cases "m = of_int n")
  case True
  then show ?thesis by simp
next
  case False
  with assms have "m < of_int n" by simp
  then have "\<lfloor>m\<rfloor> < n" by (simp add: floor_less_iff)
  with rne_bounds(2) [of m] show ?thesis by simp
qed

lemma rne_error: "\<bar>of_int (rne m) - m\<bar> \<le> 1 / 2"
proof -
  have "of_int \<lfloor>m\<rfloor> \<le> m" "m < of_int \<lfloor>m\<rfloor> + 1" by linarith+
  then show ?thesis by (auto simp add: rne_def Let_def)
qed

lemma rne_small: "0 \<le> m \<Longrightarrow> m < 1 / 2 \<Longrightarrow> rne m = 0"
proof -
  assume a: "0 \<le> m" "m < 1 / 2"
  then have "\<lfloor>m\<rfloor> = 0" by (simp add: floor_eq_iff)
  with a show ?thesis by (simp add: rne_def)
qed

subsection \<open>Rounding a magnitude\<close>

lemma ulp_div: "(a::real) / 2 powi (e - 52) = a * 2 powi (52 - e)"
proof -
  have "(2::real) powi (52 - e) = inverse (2 powi (e - 52))"
    by (simp add: power_int_minus [symmetric])
  then show ?thesis by (simp add: divide_inverse)
qed

lemma powi2_add: "(2::real) powi (i + j) = 2 powi i * 2 powi j"
  by (simp add: power_int_add)

lemma powi2_shift: "(2::real) ^ n * 2 powi (e - int n) = 2 powi e"
proof -
  have "(2::real) powi e = 2 powi (int n + (e - int n))" by simp
  also have "\<dots> = 2 powi (int n) * 2 powi (e - int n)" by (rule powi2_add)
  finally show ?thesis by simp
qed

lemma powi2_nat: "0 \<le> i \<Longrightarrow> (2::real) powi i = of_int (2 ^ nat i)"
  by (simp add: power_int_def)

lemma rmag_nonneg: "0 \<le> a \<Longrightarrow> 0 \<le> rmag a"
proof -
  assume "0 \<le> a"
  then have "of_int 0 \<le> a / 2 powi (expo a - 52)" by simp
  then have "0 \<le> rne (a / 2 powi (expo a - 52))" by (rule rne_ge_int)
  then show ?thesis by (simp add: rmag_def)
qed

text \<open>Every rounded magnitude is a multiple of the smallest positive binary64 value.\<close>

lemma rmag_grid: "\<exists>n::int. rmag a = of_int n * 2 powi (- 1074)"
proof -
  let ?e = "expo a"
  have "0 \<le> ?e + 1022" using expo_range(1) [of a] by simp
  then have "(2::real) powi (?e + 1022) = of_int (2 ^ nat (?e + 1022))" by (rule powi2_nat)
  moreover have "(2::real) powi (?e - 52) = 2 powi (?e + 1022) * 2 powi (- 1074)"
  proof -
    have "?e - 52 = (?e + 1022) + (- 1074)" by simp
    then have "(2::real) powi (?e - 52) = 2 powi ((?e + 1022) + (- 1074))" by (rule arg_cong)
    then show ?thesis by (simp only: powi2_add)
  qed
  ultimately have "rmag a = of_int (rne (a / 2 powi (?e - 52)) * 2 ^ nat (?e + 1022)) * 2 powi (- 1074)"
    unfolding rmag_def by (simp only: of_int_mult mult.assoc)
  then show ?thesis by blast
qed

lemma rmag_lower:
  assumes "2 powi (- 1022) \<le> a"
  shows "2 powi (expo a) \<le> rmag a"
proof -
  let ?e = "expo a"
  have "2 powi ?e \<le> a" using assms by (rule expo_lower)
  then have "2 powi ?e * 2 powi (52 - ?e) \<le> a * 2 powi (52 - ?e)" by simp
  then have "of_int (2 ^ 52) \<le> a / 2 powi (?e - 52)"
    by (simp add: ulp_div powi2_add [symmetric])
  then have "2 ^ 52 \<le> rne (a / 2 powi (?e - 52))" by (rule rne_ge_int)
  then have "(of_int (2 ^ 52) :: real) \<le> of_int (rne (a / 2 powi (?e - 52)))"
    by (simp only: of_int_le_iff)
  then have "2 ^ 52 * 2 powi (?e - 52) \<le> rmag a"
    unfolding rmag_def by (intro mult_right_mono) simp_all
  moreover have "(2::real) ^ 52 * 2 powi (?e - 52) = 2 powi ?e"
    using powi2_shift [of 52 ?e] by simp
  ultimately show ?thesis by simp
qed

lemma rmag_pos:
  assumes "2 powi (- 1074) \<le> a"
  shows "2 powi (- 1074) \<le> rmag a"
proof (cases "2 powi (- 1022) \<le> a")
  case True
  then have "2 powi (expo a) \<le> rmag a" by (rule rmag_lower)
  moreover have "(2::real) powi (- 1074) \<le> 2 powi (expo a)"
    using expo_range(1) [of a] by (intro powi2_mono) simp
  ultimately show ?thesis by simp
next
  case False
  then have "a < 2 powi (- 1022 + 1)"
    using powi2_strict_mono [of "- 1022" "- 1022 + 1"] by simp
  then have e: "expo a = - 1022" unfolding expo_def by (rule expo_from_below)
  from assms have "2 powi (- 1074) * 2 powi 1074 \<le> a * 2 powi 1074" by simp
  then have "of_int 1 \<le> a / 2 powi (- 1074)"
    using ulp_div [of a "- 1022"] by (simp add: powi2_add [symmetric])
  then have "1 \<le> rne (a / 2 powi (- 1074))" by (rule rne_ge_int)
  then have "(1::real) \<le> of_int (rne (a / 2 powi (- 1074)))" by linarith
  then have "1 * 2 powi (- 1074) \<le> of_int (rne (a / 2 powi (- 1074))) * (2::real) powi (- 1074)"
    by (intro mult_right_mono) simp_all
  then show ?thesis by (simp add: rmag_def e)
qed

lemma rmag_upper:
  assumes "expo a < 1023"
  shows "rmag a \<le> 2 powi (expo a + 1)"
proof -
  let ?e = "expo a"
  have "a < 2 powi (?e + 1)" using assms by (rule expo_upper)
  then have "a * 2 powi (52 - ?e) \<le> 2 powi (?e + 1) * 2 powi (52 - ?e)" by simp
  then have "a / 2 powi (?e - 52) \<le> of_int (2 ^ 53)"
    by (simp add: ulp_div powi2_add [symmetric])
  then have "rne (a / 2 powi (?e - 52)) \<le> 2 ^ 53" by (rule rne_le_int)
  then have "(of_int (rne (a / 2 powi (?e - 52))) :: real) \<le> of_int (2 ^ 53)"
    by (simp only: of_int_le_iff)
  then have "rmag a \<le> 2 ^ 53 * 2 powi (?e - 52)"
    unfolding rmag_def by (intro mult_right_mono) simp_all
  moreover have "(2::real) ^ 53 * 2 powi (?e - 52) = 2 powi (?e + 1)"
    using powi2_shift [of 53 "?e + 1"] by simp
  ultimately show ?thesis by simp
qed

lemma expo_subnormal: "a < 2 powi (- 1022) \<Longrightarrow> expo a = - 1022"
proof -
  assume "a < 2 powi (- 1022)"
  then have "a < 2 powi (- 1022 + 1)"
    using powi2_strict_mono [of "- 1022" "- 1022 + 1"] by simp
  then show ?thesis unfolding expo_def by (rule expo_from_below)
qed

lemma expo_mono:
  assumes "a \<le> b"
  shows "expo a \<le> expo b"
proof (rule ccontr)
  assume "\<not> expo a \<le> expo b"
  then have lt: "expo b < expo a" by simp
  then have "expo b < 1023" using expo_range(2) [of a] by simp
  then have "b < 2 powi (expo b + 1)" by (rule expo_upper)
  also have "\<dots> \<le> 2 powi (expo a)" using lt by (intro powi2_mono) simp
  finally have b: "b < 2 powi (expo a)" .
  have "expo a \<noteq> - 1022" using lt expo_range(1) [of b] by simp
  then have "\<not> a < 2 powi (- 1022)" using expo_subnormal [of a] by blast
  then have "2 powi (expo a) \<le> a" by (intro expo_lower) simp
  with b assms show False by simp
qed

lemma rmag_zero [simp]: "rmag 0 = 0"
  using rne_of_int [of 0] by (simp add: rmag_def)

lemma rmag_le:
  assumes "0 \<le> a" and "a \<le> y" and "rmag y = y"
  shows "rmag a \<le> y"
proof -
  have le: "expo a \<le> expo y" using assms(2) by (rule expo_mono)
  show ?thesis
  proof (cases "expo a = expo y")
    case True
    let ?u = "(2::real) powi (expo y - 52)"
    let ?n = "rne (y / ?u)"
    have u: "0 < ?u" by simp
    have "y = of_int ?n * ?u" using assms(3) by (simp add: rmag_def)
    then have "y / ?u = of_int ?n" using u by (simp add: field_simps)
    moreover have "a / ?u \<le> y / ?u" using assms(2) u by (simp add: divide_right_mono)
    ultimately have "a / ?u \<le> of_int ?n" by simp
    then have "rne (a / ?u) \<le> ?n" by (rule rne_le_int)
    then have "(of_int (rne (a / ?u)) :: real) \<le> of_int ?n" by (simp only: of_int_le_iff)
    then have "of_int (rne (a / ?u)) * ?u \<le> of_int ?n * ?u"
      by (intro mult_right_mono) simp_all
    moreover have "rmag a = of_int (rne (a / ?u)) * ?u" using True by (simp add: rmag_def)
    moreover have "of_int ?n * ?u = y" using assms(3) by (simp add: rmag_def)
    ultimately show ?thesis by simp
  next
    case False
    with le have lt: "expo a < expo y" by simp
    then have "expo a < 1023" using expo_range(2) [of y] by simp
    then have "rmag a \<le> 2 powi (expo a + 1)" by (rule rmag_upper)
    also have "\<dots> \<le> 2 powi (expo y)" using lt by (intro powi2_mono) simp
    also have "\<dots> \<le> y"
    proof -
      have "expo y \<noteq> - 1022" using lt expo_range(1) [of a] by simp
      then have "\<not> y < 2 powi (- 1022)" using expo_subnormal [of y] by blast
      then show ?thesis by (intro expo_lower) simp
    qed
    finally show ?thesis .
  qed
qed

lemma rmag_idem:
  assumes "0 \<le> a" and "rmag a < 2 powi 1024"
  shows "rmag (rmag a) = rmag a"
proof -
  let ?e = "expo a"
  let ?u = "(2::real) powi (?e - 52)"
  let ?n = "rne (a / ?u)"
  let ?y = "rmag a"
  have u: "0 < ?u" by simp
  have y: "?y = of_int ?n * ?u" by (simp add: rmag_def)
  have n53: "?n \<le> 2 ^ 53"
  proof (cases "?e < 1023")
    case True
    then have "?y \<le> 2 powi (?e + 1)" by (rule rmag_upper)
    also have "\<dots> = 2 ^ 53 * ?u" using powi2_shift [of 53 "?e + 1"] by simp
    finally have "of_int ?n * ?u \<le> of_int (2 ^ 53) * ?u" using y by simp
    then have "(of_int ?n :: real) \<le> of_int (2 ^ 53)" using u by (simp only: mult_le_cancel_right_pos)
    then show ?thesis by (simp only: of_int_le_iff)
  next
    case False
    then have e: "?e = 1023" using expo_range(2) [of a] by simp
    have "(2::real) powi 1024 = 2 ^ 53 * ?u" using powi2_shift [of 53 "?e + 1"] e by simp
    with assms(2) y have "of_int ?n * ?u < of_int (2 ^ 53) * ?u" by simp
    then have "(of_int ?n :: real) < of_int (2 ^ 53)" using u by (simp only: mult_less_cancel_right_pos)
    then have "?n < 2 ^ 53" by (simp only: of_int_less_iff)
    then show ?thesis by simp
  qed
  show ?thesis
  proof (cases "?n = 2 ^ 53")
    case True
    then have y2: "?y = 2 powi (?e + 1)" using y powi2_shift [of 53 "?e + 1"] by simp
    have e: "?e + 1 \<le> 1023"
    proof (rule ccontr)
      assume "\<not> ?e + 1 \<le> 1023"
      then have "(2::real) powi 1024 \<le> 2 powi (?e + 1)" by (intro powi2_mono) simp
      with assms(2) y2 show False by simp
    qed
    have "?y < 2 powi (?e + 1 + 1)" unfolding y2 by (intro powi2_strict_mono) simp
    then have ey: "expo ?y = ?e + 1"
      using e expo_range(1) [of a] y2 by (intro expo_eqI) simp_all
    have "of_int (2 ^ 52) * 2 powi (?e + 1 - 52) = ?y"
      using powi2_shift [of 52 "?e + 1"] y2 by simp
    then have "?y / 2 powi (?e + 1 - 52) = of_int (2 ^ 52)"
      by (simp add: field_simps del: of_int_power of_int_numeral)
    then have "rne (?y / 2 powi (?e + 1 - 52)) = 2 ^ 52" by (simp only: rne_of_int)
    then have "rmag ?y = 2 ^ 52 * 2 powi (?e + 1 - 52)" by (simp add: rmag_def [of ?y] ey)
    also have "\<dots> = 2 powi (?e + 1)" using powi2_shift [of 52 "?e + 1"] by simp
    finally show ?thesis using y2 by simp
  next
    case False
    with n53 have "?n < 2 ^ 53" by simp
    then have "(of_int ?n :: real) < of_int (2 ^ 53)" by (simp only: of_int_less_iff)
    then have "of_int ?n * ?u < of_int (2 ^ 53) * ?u" using u by (simp only: mult_less_cancel_right_pos)
    also have "of_int (2 ^ 53) * ?u = 2 powi (?e + 1)" using powi2_shift [of 53 "?e + 1"] by simp
    finally have up: "?y < 2 powi (?e + 1)" using y by simp
    have low: "2 powi ?e \<le> ?y \<or> ?e = - 1022"
    proof (cases "a < 2 powi (- 1022)")
      case True
      then show ?thesis using expo_subnormal by blast
    next
      case False
      then have "2 powi ?e \<le> ?y" by (intro rmag_lower) simp
      then show ?thesis by blast
    qed
    have ey: "expo ?y = ?e"
      using low up expo_range [of a] by (intro expo_eqI) simp_all
    have "?y / ?u = of_int ?n" using y u by (simp add: field_simps)
    then have r: "rne (?y / ?u) = ?n" by (simp only: rne_of_int)
    have "rmag ?y = of_int (rne (?y / 2 powi (expo ?y - 52))) * 2 powi (expo ?y - 52)"
      by (rule rmag_def)
    also have "\<dots> = of_int ?n * ?u" by (simp only: ey r)
    finally show ?thesis by (simp only: y)
  qed
qed

subsection \<open>Rounding to binary64\<close>

lemma fl_pos_eq: "0 < x \<Longrightarrow> fl x = (if 2 powi 1024 \<le> rmag x then PInf else Fin (rmag x))"
  by (simp add: fl_def sinf_def szero_def Let_def)

lemma fl_neg_eq:
  "x < 0 \<Longrightarrow> fl x = (if 2 powi 1024 \<le> rmag (- x) then NInf
                      else if rmag (- x) = 0 then NegZero else Fin (- rmag (- x)))"
  by (simp add: fl_def sinf_def szero_def Let_def)

lemma fl_zero [simp]: "fl 0 = Fin 0"
  by (simp add: fl_def)

lemma fl_not_NaN [simp]: "fl x \<noteq> NaN"
  by (simp add: fl_def sinf_def szero_def Let_def)

lemma fl_uminus: "x \<noteq> 0 \<Longrightarrow> fl (- x) = jneg (fl x)"
  by (cases "0 < x") (simp_all add: fl_pos_eq fl_neg_eq)

lemma fl_idem:
  assumes "fl x = Fin y"
  shows "fl y = Fin y"
proof -
  consider "x = 0" | "0 < x" | "x < 0" by linarith
  then show ?thesis
  proof cases
    case 1
    with assms show ?thesis by simp
  next
    case 2
    with assms have r: "rmag x < 2 powi 1024" "y = rmag x"
      by (simp_all add: fl_pos_eq split: if_splits)
    from 2 r(1) have i: "rmag (rmag x) = rmag x" by (intro rmag_idem) simp_all
    have "0 \<le> rmag x" using 2 by (intro rmag_nonneg) simp
    then consider "rmag x = 0" | "0 < rmag x" by linarith
    then show ?thesis
    proof cases
      case 1
      then show ?thesis using r by simp
    next
      case 2
      then show ?thesis using r i by (simp add: fl_pos_eq)
    qed
  next
    case 3
    with assms have r: "rmag (- x) < 2 powi 1024" "y = - rmag (- x)" "rmag (- x) \<noteq> 0"
      by (simp_all add: fl_neg_eq split: if_splits)
    from 3 r(1) have i: "rmag (rmag (- x)) = rmag (- x)" by (intro rmag_idem) simp_all
    have "0 \<le> rmag (- x)" using 3 by (intro rmag_nonneg) simp
    with r(3) have "0 < rmag (- x)" by simp
    then show ?thesis using r i by (simp add: fl_neg_eq)
  qed
qed

lemma fl_grid:
  assumes "fl x = Fin y"
  shows "\<exists>n::int. y = of_int n * 2 powi (- 1074)"
proof -
  consider "x = 0" | "0 < x" | "x < 0" by linarith
  then show ?thesis
  proof cases
    case 1
    with assms have "y = of_int 0 * 2 powi (- 1074)" by simp
    then show ?thesis by blast
  next
    case 2
    with assms have "y = rmag x" by (simp add: fl_pos_eq split: if_splits)
    then show ?thesis using rmag_grid [of x] by simp
  next
    case 3
    with assms have y: "y = - rmag (- x)" by (simp add: fl_neg_eq split: if_splits)
    obtain n :: int where "rmag (- x) = of_int n * 2 powi (- 1074)"
      using rmag_grid [of "- x"] by blast
    with y have "y = of_int (- n) * 2 powi (- 1074)" by simp
    then show ?thesis by blast
  qed
qed

lemma fl_le_double:
  assumes "0 \<le> x" and "x \<le> y" and "fl y = Fin y"
  shows "\<exists>z. fl x = Fin z \<and> 0 \<le> z \<and> z \<le> y"
proof (cases "x = 0")
  case True
  with assms show ?thesis by simp
next
  case False
  with assms have x: "0 < x" and y: "0 < y" by simp_all
  from assms(3) y have ry: "rmag y < 2 powi 1024" "rmag y = y"
    by (simp_all add: fl_pos_eq split: if_splits)
  have "rmag x \<le> y" using assms(1,2) ry(2) by (rule rmag_le)
  moreover have "0 \<le> rmag x" using assms(1) by (rule rmag_nonneg)
  ultimately show ?thesis using x ry by (simp add: fl_pos_eq)
qed

lemma fl_nonneg: "0 \<le> x \<Longrightarrow> fl x = PInf \<or> (\<exists>z. fl x = Fin z \<and> 0 \<le> z)"
  using rmag_nonneg [of x] by (cases "x = 0") (simp_all add: fl_pos_eq)

lemma fl_positive:
  "2 powi (- 1074) \<le> x \<Longrightarrow> fl x = PInf \<or> (\<exists>z. fl x = Fin z \<and> 2 powi (- 1074) \<le> z)"
proof -
  assume a: "2 powi (- 1074) \<le> x"
  have "(0::real) < 2 powi (- 1074)" by simp
  with a have "0 < x" by linarith
  then show ?thesis using rmag_pos [OF a] by (simp add: fl_pos_eq)
qed

lemma fl_negative:
  "x < 0 \<Longrightarrow> fl x = NInf \<or> fl x = NegZero \<or> (\<exists>z. fl x = Fin z \<and> z < 0)"
  using rmag_nonneg [of "- x"] by (simp add: fl_neg_eq)

text \<open>Evaluation of a rounding from the binade and the rounded significand.\<close>

lemma fl_evalI:
  assumes "0 < x" and "2 powi e \<le> x \<or> e = - 1022" and "x < 2 powi (e + 1)"
    and "- 1022 \<le> e" and "e \<le> 1023"
    and "rne (x / 2 powi (e - 52)) = n" and "of_int n * 2 powi (e - 52) = r"
    and "r < 2 powi 1024"
  shows "fl x = Fin r"
proof -
  have "expo x = e" using assms(2-5) by (intro expo_eqI) simp_all
  then have "rmag x = r" using assms(6,7) by (simp add: rmag_def)
  then show ?thesis using assms(1,8) by (simp add: fl_pos_eq)
qed

section \<open>Arithmetic on finite numbers\<close>

lemma jadd_Fin: "jadd (Fin x) (Fin y) = fl (x + y)"
  by (simp add: jadd_def is_inf_def szero_def)

lemma jsub_Fin: "jsub (Fin x) (Fin y) = fl (x - y)"
  by (simp add: jsub_def jadd_def is_inf_def szero_def)

lemma jmul_Fin: "0 \<le> x \<Longrightarrow> 0 \<le> y \<Longrightarrow> jmul (Fin x) (Fin y) = fl (x * y)"
  by (auto simp add: jmul_def is_inf_def szero_def)

lemma jdiv_Fin: "0 < y \<Longrightarrow> jdiv (Fin x) (Fin y) = fl (x / y)"
  by (simp add: jdiv_def is_inf_def is_zero_def szero_def)

lemma jle_not_jgt: "is_fin a \<Longrightarrow> is_fin b \<Longrightarrow> jle a b = (\<not> jgt a b)"
  by (cases a; cases b) (auto simp add: jle_def jgt_def jlt_def)

section \<open>Trimming\<close>

lemma dropWhile_fixed: "xs = [] \<or> \<not> P (hd xs) \<Longrightarrow> dropWhile P xs = xs"
  by (cases xs) auto

lemma strip_end_hd:
  assumes "t = [] \<or> \<not> P (hd t)"
  shows "rev (dropWhile P (rev t)) = [] \<or> \<not> P (hd (rev (dropWhile P (rev t))))"
proof (cases "rev (dropWhile P (rev t)) = []")
  case True
  then show ?thesis by blast
next
  case False
  have "rev t = takeWhile P (rev t) @ dropWhile P (rev t)" by simp
  then have "rev (rev t) = rev (takeWhile P (rev t) @ dropWhile P (rev t))"
    by (rule arg_cong)
  then have pre: "t = rev (dropWhile P (rev t)) @ rev (takeWhile P (rev t))"
    by (simp del: takeWhile_dropWhile_id)
  from False have "hd (rev (dropWhile P (rev t)) @ rev (takeWhile P (rev t)))
      = hd (rev (dropWhile P (rev t)))" by (rule hd_append2)
  with pre have "hd t = hd (rev (dropWhile P (rev t)))" by simp
  moreover from False have "t \<noteq> []" by auto
  ultimately show ?thesis using assms by simp
qed

lemma js_trim_idem: "js_trim (js_trim s) = js_trim s"
proof -
  let ?t = "dropWhile is_ws s"
  let ?w = "rev (dropWhile is_ws (rev ?t))"
  have "?t = [] \<or> \<not> is_ws (hd ?t)" using hd_dropWhile [of is_ws s] by blast
  then have "?w = [] \<or> \<not> is_ws (hd ?w)" by (rule strip_end_hd)
  then have "dropWhile is_ws ?w = ?w" by (rule dropWhile_fixed)
  then show ?thesis by (simp add: js_trim_def)
qed

lemma js_Number_trim: "js_Number (js_trim s) = js_Number s"
  by (simp add: js_Number_def js_trim_idem)

lemma js_Number_blank: "js_trim s = [] \<Longrightarrow> js_Number s = Fin 0"
  by (simp add: js_Number_def)

section \<open>Evaluation of the library functions\<close>

lemmas parse_defs = js_Number_def js_trim_def is_ws_def parse_radix_def parse_decimal_def
  parse_exponent_def is_digit_in_def digit_of_def digits_val_def Let_def

lemma js_Number_empty: "js_Number [] = Fin 0"
  by (simp add: parse_defs)

lemma fl_21_10: "fl (21 / 10) = Fin (4728779608739021 / 2251799813685248)"
  by (rule fl_evalI [where e = 1 and n = 4728779608739021]) (simp_all add: rne_def)

lemma fl_11_10: "fl (11 / 10) = Fin (2476979795053773 / 2251799813685248)"
  by (rule fl_evalI [where e = 0 and n = 4953959590107546]) (simp_all add: rne_def)

lemma fl_one: "fl 1 = Fin 1"
  by (rule fl_evalI [where e = 0 and n = "2 ^ 52"]) (simp_all add: rne_def)

lemma num_210: "js_Number ''2.10'' = Fin (4728779608739021 / 2251799813685248)"
proof -
  have "js_Number ''2.10'' = fl (21 / 10)" by (simp add: parse_defs)
  then show ?thesis by (simp only: fl_21_10)
qed

lemma b_decimal: "jsub (Fin (4728779608739021 / 2251799813685248)) (Fin 1) = Fin (2476979795053773 / 2251799813685248)"
  unfolding jsub_Fin
  by (rule fl_evalI [where e = 0 and n = 4953959590107546]) (simp_all add: rne_def)

lemma fl_11_20: "fl (11 / 20) = Fin (2476979795053773 / 4503599627370496)"
  by (rule fl_evalI [where e = "- 1" and n = 4953959590107546]) (simp_all add: rne_def)

lemma fl_9999: "fl (9999 / 10000) = Fin (4503149267407759 / 4503599627370496)"
  by (rule fl_evalI [where e = "- 1" and n = 9006298534815518]) (simp_all add: rne_def)

lemma fl_11: "fl 11 = Fin (11)"
  by (rule fl_evalI [where e = 3 and n = 6192449487634432]) (simp_all add: rne_def)

lemma fl_10: "fl 10 = Fin (10)"
  by (rule fl_evalI [where e = 3 and n = 5629499534213120]) (simp_all add: rne_def)

lemma fl_1000: "fl 1000 = Fin (1000)"
  by (rule fl_evalI [where e = 9 and n = 8796093022208000]) (simp_all add: rne_def)

lemma ex_q:
  "jsub (Fin (1))
     (Fin (2476979795053773 / 4503599627370496))
   = Fin (2026619832316723 / 4503599627370496)"
proof -
  have "jsub (Fin (1))
     (Fin (2476979795053773 / 4503599627370496))
   = fl ((1) - (2476979795053773 / 4503599627370496))"
    by (rule jsub_Fin)
  also have "\<dots> = Fin (2026619832316723 / 4503599627370496)"
    by (rule fl_evalI [where e = "- 2" and n = 8106479329266892]) (simp_all add: rne_def)
  finally show ?thesis .
qed

lemma ex_bp:
  "jmul (Fin (2476979795053773 / 2251799813685248))
     (Fin (2476979795053773 / 4503599627370496))
   = Fin (5449355549118301 / 9007199254740992)"
proof -
  have "jmul (Fin (2476979795053773 / 2251799813685248))
     (Fin (2476979795053773 / 4503599627370496))
   = fl ((2476979795053773 / 2251799813685248) * (2476979795053773 / 4503599627370496))"
    by (rule jmul_Fin) simp_all
  also have "\<dots> = Fin (5449355549118301 / 9007199254740992)"
    by (rule fl_evalI [where e = "- 1" and n = 5449355549118301]) (simp_all add: rne_def)
  finally show ?thesis .
qed

lemma ex_num:
  "jsub (Fin (5449355549118301 / 9007199254740992))
     (Fin (2026619832316723 / 4503599627370496))
   = Fin (1396115884484855 / 9007199254740992)"
proof -
  have "jsub (Fin (5449355549118301 / 9007199254740992))
     (Fin (2026619832316723 / 4503599627370496))
   = fl ((5449355549118301 / 9007199254740992) - (2026619832316723 / 4503599627370496))"
    by (rule jsub_Fin)
  also have "\<dots> = Fin (1396115884484855 / 9007199254740992)"
    by (rule fl_evalI [where e = "- 3" and n = 5584463537939420]) (simp_all add: rne_def)
  finally show ?thesis .
qed

lemma ex_fStar:
  "jdiv (Fin (1396115884484855 / 9007199254740992))
     (Fin (2476979795053773 / 2251799813685248))
   = Fin (5076785034490381 / 36028797018963968)"
proof -
  have "jdiv (Fin (1396115884484855 / 9007199254740992))
     (Fin (2476979795053773 / 2251799813685248))
   = fl ((1396115884484855 / 9007199254740992) / (2476979795053773 / 2251799813685248))"
    by (rule jdiv_Fin) simp
  also have "\<dots> = Fin (5076785034490381 / 36028797018963968)"
    by (rule fl_evalI [where e = "- 3" and n = 5076785034490381]) (simp_all add: rne_def)
  finally show ?thesis .
qed

lemma ex_raw:
  "jmul (Fin (1))
     (Fin (5076785034490381 / 36028797018963968))
   = Fin (5076785034490381 / 36028797018963968)"
proof -
  have "jmul (Fin (1))
     (Fin (5076785034490381 / 36028797018963968))
   = fl ((1) * (5076785034490381 / 36028797018963968))"
    by (rule jmul_Fin) simp_all
  also have "\<dots> = Fin (5076785034490381 / 36028797018963968)"
    by (rule fl_evalI [where e = "- 3" and n = 5076785034490381]) (simp_all add: rne_def)
  finally show ?thesis .
qed

lemma ex_stake:
  "jmul (Fin (1000))
     (Fin (5076785034490381 / 36028797018963968))
   = Fin (4957797885244513 / 35184372088832)"
proof -
  have "jmul (Fin (1000))
     (Fin (5076785034490381 / 36028797018963968))
   = fl ((1000) * (5076785034490381 / 36028797018963968))"
    by (rule jmul_Fin) simp_all
  also have "\<dots> = Fin (4957797885244513 / 35184372088832)"
    by (rule fl_evalI [where e = 7 and n = 4957797885244513]) (simp_all add: rne_def)
  finally show ?thesis .
qed

lemma ex_b_frac:
  "jdiv (Fin (11))
     (Fin (10))
   = Fin (2476979795053773 / 2251799813685248)"
proof -
  have "jdiv (Fin (11))
     (Fin (10))
   = fl ((11) / (10))"
    by (rule jdiv_Fin) simp
  also have "\<dots> = Fin (2476979795053773 / 2251799813685248)"
    by (rule fl_evalI [where e = 0 and n = 4953959590107546]) (simp_all add: rne_def)
  finally show ?thesis .
qed

lemma num_055: "js_Number ''0.55'' = Fin (2476979795053773 / 4503599627370496)"
proof -
  have "js_Number ''0.55'' = fl (11 / 20)" by (simp add: parse_defs)
  then show ?thesis by (simp only: fl_11_20)
qed

lemma num_1: "js_Number ''1'' = Fin 1"
proof -
  have "js_Number ''1'' = fl 1" by (simp add: parse_defs)
  then show ?thesis by (simp only: fl_one)
qed

lemma num_1000: "js_Number ''1000'' = Fin 1000"
proof -
  have "js_Number ''1000'' = fl 1000" by (simp add: parse_defs)
  then show ?thesis by (simp only: fl_1000)
qed

lemma num_11: "js_Number ''11'' = Fin 11"
proof -
  have "js_Number ''11'' = fl 11" by (simp add: parse_defs)
  then show ?thesis by (simp only: fl_11)
qed

lemma num_10: "js_Number ''10'' = Fin 10"
proof -
  have "js_Number ''10'' = fl 10" by (simp add: parse_defs)
  then show ?thesis by (simp only: fl_10)
qed

lemma ex_p: "parseProbability ''0.55'' ''decimal'' = Some (Fin (2476979795053773 / 4503599627370496))"
  by (simp add: parseProbability_def num_055 Number_isFinite_def)

lemma ex_b_decimal:
  "parseNetOdds ''2.10'' ''decimal'' = Some (Fin (2476979795053773 / 2251799813685248))"
proof -
  have "js_trim ''2.10'' = ''2.10''" by (simp add: js_trim_def is_ws_def)
  then show ?thesis
    by (simp add: parseNetOdds_def num_210 b_decimal Number_isFinite_def jle_def)
qed

lemma ex_b_fractional:
  "parseNetOdds ''11/10'' ''fractional'' = Some (Fin (2476979795053773 / 2251799813685248))"
proof -
  have "js_trim ''11/10'' = ''11/10''" "js_trim ''11'' = ''11''" "js_trim ''10'' = ''10''"
    by (simp_all add: js_trim_def is_ws_def)
  then show ?thesis
    by (simp add: parseNetOdds_def num_11 num_10 ex_b_frac Number_isFinite_def jle_def)
qed

lemma ex_kelly:
  "kellyFraction (Fin (2476979795053773 / 4503599627370496))
     (Fin (2476979795053773 / 2251799813685248))
   = Fin (5076785034490381 / 36028797018963968)"
  by (simp only: kellyFraction_def Let_def ex_q ex_bp ex_num ex_fStar)

lemma ex_clamp:
  "clamp (Fin (5076785034490381 / 36028797018963968)) (Fin 0) (fl (9999 / 10000))
   = Fin (5076785034490381 / 36028797018963968)"
  by (simp add: clamp_def fl_9999 Math_max_def Math_min_def jlt_def)

lemma scenario1_update:
  "update scenario1 =
     Outputs (compute (Fin (2476979795053773 / 4503599627370496))
       (Fin (2476979795053773 / 2251799813685248)) (Fin 1) ''1000'')"
proof -
  have "problems_of (Some (Fin (2476979795053773 / 4503599627370496)))
      (Some (Fin (2476979795053773 / 2251799813685248))) = []"
    by (simp add: problems_of_def Number_isFinite_def jle_def jge_def)
  then show ?thesis
    by (simp add: update_def scenario1_def ex_p ex_b_decimal num_1)
qed

lemma scenario1_compute:
  "res_b (compute (Fin (2476979795053773 / 4503599627370496))
       (Fin (2476979795053773 / 2251799813685248)) (Fin 1) ''1000'')
     = Fin (2476979795053773 / 2251799813685248)"
  "res_q (compute (Fin (2476979795053773 / 4503599627370496))
       (Fin (2476979795053773 / 2251799813685248)) (Fin 1) ''1000'')
     = Fin (2026619832316723 / 4503599627370496)"
  "res_fStar (compute (Fin (2476979795053773 / 4503599627370496))
       (Fin (2476979795053773 / 2251799813685248)) (Fin 1) ''1000'')
     = Fin (5076785034490381 / 36028797018963968)"
  "res_fStarClamped (compute (Fin (2476979795053773 / 4503599627370496))
       (Fin (2476979795053773 / 2251799813685248)) (Fin 1) ''1000'')
     = Fin (5076785034490381 / 36028797018963968)"
  "res_fApplied (compute (Fin (2476979795053773 / 4503599627370496))
       (Fin (2476979795053773 / 2251799813685248)) (Fin 1) ''1000'')
     = Fin (5076785034490381 / 36028797018963968)"
  "res_stake (compute (Fin (2476979795053773 / 4503599627370496))
       (Fin (2476979795053773 / 2251799813685248)) (Fin 1) ''1000'')
     = Some (Fin (4957797885244513 / 35184372088832))"
proof -
  have M: "Math_max (Fin 0) (Fin (5076785034490381 / 36028797018963968))
      = Fin (5076785034490381 / 36028797018963968)"
    by (simp add: Math_max_def jlt_def)
  note defs = compute_def Let_def ex_kelly M ex_raw ex_clamp ex_q num_1000 ex_stake
    Number_isFinite_def jgt_def jlt_def
  show "res_b (compute (Fin (2476979795053773 / 4503599627370496))
       (Fin (2476979795053773 / 2251799813685248)) (Fin 1) ''1000'')
     = Fin (2476979795053773 / 2251799813685248)"
    by (simp add: defs)
  show "res_q (compute (Fin (2476979795053773 / 4503599627370496))
       (Fin (2476979795053773 / 2251799813685248)) (Fin 1) ''1000'')
     = Fin (2026619832316723 / 4503599627370496)"
    by (simp add: defs)
  show "res_fStar (compute (Fin (2476979795053773 / 4503599627370496))
       (Fin (2476979795053773 / 2251799813685248)) (Fin 1) ''1000'')
     = Fin (5076785034490381 / 36028797018963968)"
    by (simp add: defs)
  show "res_fStarClamped (compute (Fin (2476979795053773 / 4503599627370496))
       (Fin (2476979795053773 / 2251799813685248)) (Fin 1) ''1000'')
     = Fin (5076785034490381 / 36028797018963968)"
    by (simp add: defs)
  show "res_fApplied (compute (Fin (2476979795053773 / 4503599627370496))
       (Fin (2476979795053773 / 2251799813685248)) (Fin 1) ''1000'')
     = Fin (5076785034490381 / 36028797018963968)"
    by (simp add: defs)
  show "res_stake (compute (Fin (2476979795053773 / 4503599627370496))
       (Fin (2476979795053773 / 2251799813685248)) (Fin 1) ''1000'')
     = Some (Fin (4957797885244513 / 35184372088832))"
    by (simp add: defs)
qed

lemma scenario1_outputs:
  "\<exists>r. update scenario1 = Outputs r
     \<and> res_b r = Fin (2476979795053773 / 2251799813685248)
     \<and> res_q r = Fin (2026619832316723 / 4503599627370496)
     \<and> res_fStar r = Fin (5076785034490381 / 36028797018963968)
     \<and> res_fStarClamped r = Fin (5076785034490381 / 36028797018963968)
     \<and> res_fApplied r = Fin (5076785034490381 / 36028797018963968)
     \<and> res_stake r = Some (Fin (4957797885244513 / 35184372088832))"
  using scenario1_update scenario1_compute by blast

lemma scenario_abc_p: "parseProbability ''abc'' ''decimal'' = None"
proof -
  have "js_Number ''abc'' = NaN" by (simp add: parse_defs)
  then show ?thesis by (simp add: parseProbability_def Number_isFinite_def)
qed

lemma fl_half: "fl (1 / 2) = Fin (1 / 2)"
  by (rule fl_evalI [where e = "- 1" and n = "2 ^ 52"]) (simp_all add: rne_def)

lemma scenario_abc_b: "parseNetOdds ''0.5'' ''decimal'' = None"
proof -
  have "js_Number ''0.5'' = fl (1 / 2)" by (simp add: parse_defs)
  also have "\<dots> = Fin (1 / 2)" by (rule fl_half)
  finally have h: "js_Number ''0.5'' = Fin (1 / 2)" .
  have "js_trim ''0.5'' = ''0.5''" by (simp add: js_trim_def is_ws_def)
  then show ?thesis by (simp add: parseNetOdds_def h jle_def)
qed

lemma scenario_abc_problems:
  "update scenario_abc = Problems [''Probability (p) is missing or not a number.'',
      ''Odds are missing/invalid (check format).'']"
  by (simp add: update_def scenario_abc_def scenario_abc_p scenario_abc_b problems_of_def)

lemma num_1em200: "js_Number ''1e-200'' = Fin (6894565328877484 * 2 powi (- 717))"
proof -
  have "js_Number ''1e-200'' = fl (10 powi (- 200))" by (simp add: parse_defs)
  also have "\<dots> = Fin (6894565328877484 * 2 powi (- 717))"
    by (rule fl_evalI [where e = "- 665" and n = 6894565328877484]) (simp_all add: rne_def)
  finally show ?thesis .
qed

lemma num_1e200: "js_Number ''1e200'' = Fin (5883593420661338 * 2 powi 612)"
proof -
  have "js_Number ''1e200'' = fl (10 powi 200)" by (simp add: parse_defs)
  also have "\<dots> = Fin (5883593420661338 * 2 powi 612)"
    by (rule fl_evalI [where e = 664 and n = 5883593420661338]) (simp_all add: rne_def)
  finally show ?thesis .
qed

lemma underflow_quotient: "jdiv (js_Number ''1e-200'') (js_Number ''1e200'') = Fin 0"
proof -
  have "jdiv (Fin (6894565328877484 * 2 powi (- 717))) (Fin (5883593420661338 * 2 powi 612))
      = fl (6894565328877484 * 2 powi (- 717) / (5883593420661338 * 2 powi 612))"
    by (rule jdiv_Fin) simp
  also have "\<dots> = Fin 0"
    by (rule fl_evalI [where e = "- 1022" and n = 0]) (simp_all add: rne_def)
  finally show ?thesis by (simp only: num_1em200 num_1e200)
qed

lemma underflow_operands:
  "Number_isFinite (js_Number ''1e-200'')" "Number_isFinite (js_Number ''1e200'')"
  "\<not> jle (js_Number ''1e-200'') (Fin 0)" "\<not> jle (js_Number ''1e200'') (Fin 0)"
  by (simp_all add: num_1em200 num_1e200 Number_isFinite_def jle_def)

lemma underflow_odds: "parseNetOdds ''1e-200/1e200'' ''fractional'' = Some (Fin 0)"
proof -
  have "js_trim ''1e-200/1e200'' = ''1e-200/1e200''" "js_trim ''1e-200'' = ''1e-200''"
    "js_trim ''1e200'' = ''1e200''"
    by (simp_all add: js_trim_def is_ws_def)
  then show ?thesis
    by (simp add: parseNetOdds_def underflow_quotient underflow_operands)
qed

section \<open>Binary64 values\<close>

text \<open>Every binary64 value is a multiple of the smallest positive one.\<close>

lemma gap_of_multiples:
  fixes x y u :: real
  assumes "x = of_int m * u" and "y = of_int n * u" and "x < y" and "0 < u"
  shows "u \<le> y - x"
proof -
  from assms have "of_int m * u < of_int n * u" by simp
  then have "(of_int m :: real) < of_int n" using assms(4) by (simp only: mult_less_cancel_right_pos)
  then have "m < n" by (simp only: of_int_less_iff)
  then have "1 \<le> n - m" by simp
  then have "(of_int 1 :: real) \<le> of_int (n - m)" by (simp only: of_int_le_iff)
  then have "1 * u \<le> of_int (n - m) * u" using assms(4) by (intro mult_right_mono) simp_all
  also have "\<dots> = y - x" using assms(1,2) by (simp add: algebra_simps)
  finally show ?thesis by simp
qed

lemma grid_gap:
  fixes x y :: real
  assumes "x = of_int m * 2 powi (- 1074)" and "y = of_int n * 2 powi (- 1074)" and "x < y"
  shows "2 powi (- 1074) \<le> y - x"
  using assms by (rule gap_of_multiples) simp

lemma one_on_grid: "(1::real) = of_int (2 ^ 1074) * 2 powi (- 1074)"
  using powi2_shift [of 1074 0] by simp

lemma is_double_grid: "is_double (Fin x) \<Longrightarrow> \<exists>n::int. x = of_int n * 2 powi (- 1074)"
  using fl_grid [of x x] by simp

lemma is_double_fl [simp]: "is_double (fl x)"
proof (cases "fl x")
  case (Fin y)
  then have "fl y = Fin y" by (rule fl_idem)
  with Fin show ?thesis by simp
qed simp_all

lemma is_double_jneg: "is_double a \<Longrightarrow> is_double (jneg a)"
proof (cases a)
  case (Fin x)
  assume "is_double a"
  with Fin have "fl x = Fin x" by simp
  then show ?thesis using Fin fl_uminus [of x] by (cases "x = 0") simp_all
qed simp_all

lemma is_double_szero [simp]: "is_double (szero s)"
  by (simp add: szero_def)

lemma is_double_sinf [simp]: "is_double (sinf s)"
  by (simp add: sinf_def)

lemma is_double_jadd: "is_double a \<Longrightarrow> is_double b \<Longrightarrow> is_double (jadd a b)"
  by (auto simp add: jadd_def)

lemma is_double_jmul [simp]: "is_double (jmul a b)"
  by (simp add: jmul_def)

lemma is_double_jdiv [simp]: "is_double (jdiv a b)"
  by (simp add: jdiv_def)

lemma is_double_js_Number [simp]: "is_double (js_Number s)"
  by (simp add: js_Number_def Let_def is_double_jneg split: option.split)

text \<open>A binary64 value below 1 stays below 1 by at least the smallest positive value.\<close>

lemma double_above:
  assumes "is_double (Fin x)" and "is_double (Fin y)" and "x < y"
  shows "fl (y - x) = PInf \<or> (\<exists>z. fl (y - x) = Fin z \<and> 0 < z)"
proof -
  obtain m :: int where m: "x = of_int m * 2 powi (- 1074)"
    using is_double_grid [OF assms(1)] by blast
  obtain n :: int where n: "y = of_int n * 2 powi (- 1074)"
    using is_double_grid [OF assms(2)] by blast
  have "2 powi (- 1074) \<le> y - x" using m n assms(3) by (rule grid_gap)
  then have "fl (y - x) = PInf \<or> (\<exists>z. fl (y - x) = Fin z \<and> 2 powi (- 1074) \<le> z)"
    by (rule fl_positive)
  moreover have "(0::real) < 2 powi (- 1074)" by simp
  ultimately show ?thesis by force
qed

section \<open>The sign of the net odds\<close>

lemma parseNetOdds_cases:
  assumes "parseNetOdds s f = Some v"
  shows "v = PInf \<or> (\<exists>z. v = Fin z \<and> 0 \<le> z \<and> (f \<noteq> ''decimal'' \<or> 0 < z))"
proof (cases "f = ''decimal''")
  case True
  let ?D = "js_Number (js_trim s)"
  from assms True have D: "Number_isFinite ?D" "\<not> jle ?D (Fin 1)" and v: "v = jsub ?D (Fin 1)"
    by (simp_all add: parseNetOdds_def Let_def split: if_splits)
  from D obtain d where d: "?D = Fin d" "1 < d"
    by (cases ?D) (simp_all add: Number_isFinite_def jle_def)
  have "is_double (Fin d)" using is_double_js_Number [of "js_trim s"] d(1) by simp
  then have "fl (d - 1) = PInf \<or> (\<exists>z. fl (d - 1) = Fin z \<and> 0 < z)"
    using d(2) by (intro double_above) (simp_all add: fl_one)
  then show ?thesis using v d(1) True by (auto simp add: jsub_Fin)
next
  case False
  from assms False obtain x y where xy: "js_split CHR ''/'' (js_trim s) = [x, y]"
    and A: "Number_isFinite (js_Number (js_trim x))" "\<not> jle (js_Number (js_trim x)) (Fin 0)"
    and B: "Number_isFinite (js_Number (js_trim y))" "\<not> jle (js_Number (js_trim y)) (Fin 0)"
    and v: "v = jdiv (js_Number (js_trim x)) (js_Number (js_trim y))"
    by (auto simp add: parseNetOdds_def Let_def split: if_splits list.splits)
  from A obtain a where a: "js_Number (js_trim x) = Fin a" "0 < a"
    by (cases "js_Number (js_trim x)") (simp_all add: Number_isFinite_def jle_def)
  from B obtain b where b: "js_Number (js_trim y) = Fin b" "0 < b"
    by (cases "js_Number (js_trim y)") (simp_all add: Number_isFinite_def jle_def)
  have "v = fl (a / b)" using v a b by (simp add: jdiv_Fin)
  moreover have "0 \<le> a / b" using a(2) b(2) by simp
  then have "fl (a / b) = PInf \<or> (\<exists>z. fl (a / b) = Fin z \<and> 0 \<le> z)" by (rule fl_nonneg)
  ultimately show ?thesis using False by auto
qed

section \<open>Underflow to zero\<close>

lemma rne_above_half:
  assumes "1 / 2 < m"
  shows "1 \<le> rne m"
proof -
  have "0 < (of_int (rne m) :: real)" using rne_error [of m] assms by linarith
  then have "0 < rne m" by (simp only: of_int_0_less_iff)
  then show ?thesis by simp
qed

lemma rne_upto_half:
  assumes "0 \<le> m" and "m \<le> 1 / 2"
  shows "rne m = 0"
proof (cases "m < 1 / 2")
  case True
  with assms(1) show ?thesis by (rule rne_small)
next
  case False
  with assms(2) have m: "m = 1 / 2" by simp
  have "rne (1 / 2) = 0" by (simp add: rne_def)
  then show ?thesis unfolding m .
qed

lemma powi2_double: "(2::real) powi (k + 1) = 2 * 2 powi k"
  by (simp add: power_int_add)

lemma rmag_subnormal:
  assumes "x < 2 powi (- 1022)"
  shows "rmag x = of_int (rne (x / 2 powi (- 1074))) * 2 powi (- 1074)"
proof -
  have "expo x = - 1022" using assms by (rule expo_subnormal)
  then show ?thesis by (simp add: rmag_def)
qed

text \<open>
  A positive real rounds to zero exactly when it is at most half of the smallest positive
  binary64 value.
\<close>

lemma rmag_zero_iff:
  assumes "0 < x"
  shows "rmag x = 0 \<longleftrightarrow> x \<le> 2 powi (- 1075)"
proof -
  define u :: real where "u = 2 powi (- 1074)"
  have u: "0 < u" by (simp add: u_def)
  have "(2::real) powi (- 1075 + 1) = 2 * 2 powi (- 1075)" by (rule powi2_double)
  then have half: "2 powi (- 1075) = u / 2" by (simp add: u_def)
  have sub: "u \<le> 2 powi (- 1022)" unfolding u_def by (intro powi2_mono) simp
  show ?thesis
  proof
    assume r: "rmag x = 0"
    show "x \<le> 2 powi (- 1075)"
    proof (rule ccontr)
      assume "\<not> x \<le> 2 powi (- 1075)"
      then have gt: "u / 2 < x" unfolding half by simp
      show False
      proof (cases "u \<le> x")
        case True
        then have "2 powi (- 1074) \<le> rmag x" unfolding u_def by (rule rmag_pos)
        with r u show False by (simp add: u_def)
      next
        case False
        with sub have "x < 2 powi (- 1022)" by simp
        then have "rmag x = of_int (rne (x / 2 powi (- 1074))) * 2 powi (- 1074)"
          by (rule rmag_subnormal)
        then have m: "rmag x = of_int (rne (x / u)) * u" unfolding u_def .
        have "1 / 2 < x / u" using gt u by (simp add: field_simps)
        then have "1 \<le> rne (x / u)" by (rule rne_above_half)
        then have "(of_int 1 :: real) \<le> of_int (rne (x / u))" by (simp only: of_int_le_iff)
        then have "1 * u \<le> of_int (rne (x / u)) * u" using u by (intro mult_right_mono) simp_all
        with m r u show False by simp
      qed
    qed
  next
    assume "x \<le> 2 powi (- 1075)"
    then have le: "x \<le> u / 2" unfolding half .
    with u sub have "x < 2 powi (- 1022)" by linarith
    then have "rmag x = of_int (rne (x / 2 powi (- 1074))) * 2 powi (- 1074)"
      by (rule rmag_subnormal)
    then have m: "rmag x = of_int (rne (x / u)) * u" unfolding u_def .
    have "0 \<le> x / u" "x / u \<le> 1 / 2" using le assms u by (simp_all add: field_simps)
    then have "rne (x / u) = 0" by (rule rne_upto_half)
    with m show "rmag x = 0" by simp
  qed
qed

lemma fl_pos_zero_iff:
  assumes "0 < x"
  shows "fl x = Fin 0 \<longleftrightarrow> x \<le> 2 powi (- 1075)"
proof -
  have "fl x = Fin 0 \<longleftrightarrow> rmag x = 0" using assms by (simp add: fl_pos_eq)
  then show ?thesis using rmag_zero_iff [OF assms] by simp
qed

lemma fl_pos_sign:
  assumes "0 < x"
  shows "jgt (fl x) (Fin 0) \<longleftrightarrow> 2 powi (- 1075) < x"
proof -
  have "fl x = PInf \<or> (\<exists>z. fl x = Fin z \<and> 0 \<le> z)" using assms by (intro fl_nonneg) simp
  then have "jgt (fl x) (Fin 0) \<longleftrightarrow> fl x \<noteq> Fin 0" by (auto simp add: jgt_def jlt_def)
  then show ?thesis using fl_pos_zero_iff [OF assms] by (simp add: not_le)
qed

text \<open>The fractional format: both sides are positive numbers and the result is their quotient.\<close>

lemma parseNetOdds_fractional:
  assumes "parseNetOdds s f = Some v" and "f \<noteq> ''decimal''"
  shows "\<exists>x y a b. js_split CHR ''/'' (js_trim s) = [x, y]
           \<and> js_Number (js_trim x) = Fin a \<and> js_Number (js_trim y) = Fin b
           \<and> 0 < a \<and> 0 < b \<and> v = jdiv (Fin a) (Fin b) \<and> v = fl (a / b)"
proof -
  from assms obtain x y where xy: "js_split CHR ''/'' (js_trim s) = [x, y]"
    and A: "Number_isFinite (js_Number (js_trim x))" "\<not> jle (js_Number (js_trim x)) (Fin 0)"
    and B: "Number_isFinite (js_Number (js_trim y))" "\<not> jle (js_Number (js_trim y)) (Fin 0)"
    and v: "v = jdiv (js_Number (js_trim x)) (js_Number (js_trim y))"
    by (auto simp add: parseNetOdds_def Let_def split: if_splits list.splits)
  from A obtain a where a: "js_Number (js_trim x) = Fin a" "0 < a"
    by (cases "js_Number (js_trim x)") (simp_all add: Number_isFinite_def jle_def)
  from B obtain b where b: "js_Number (js_trim y) = Fin b" "0 < b"
    by (cases "js_Number (js_trim y)") (simp_all add: Number_isFinite_def jle_def)
  have "v = jdiv (Fin a) (Fin b)" using v a(1) b(1) by simp
  moreover have "jdiv (Fin a) (Fin b) = fl (a / b)" using b(2) by (rule jdiv_Fin)
  ultimately show ?thesis using xy a b by auto
qed

section \<open>The success path of the update\<close>

lemma is_double_parseNetOdds:
  assumes "parseNetOdds s f = Some v"
  shows "is_double v"
proof (cases "f = ''decimal''")
  case True
  with assms have "v = jsub (js_Number (js_trim s)) (Fin 1)"
    by (simp add: parseNetOdds_def Let_def split: if_splits)
  moreover have "is_double (jneg (Fin 1))" by (simp add: fl_uminus [of 1, simplified] fl_one)
  ultimately show ?thesis by (simp add: jsub_def is_double_jadd del: jneg.simps)
next
  case False
  with assms show ?thesis
    by (auto simp add: parseNetOdds_def Let_def split: if_splits list.splits)
qed

text \<open>
  When \<^verbatim>\<open>update\<close> writes outputs, the probability is a number strictly between 0 and 1
  and the net odds are a positive binary64 number.
\<close>

lemma update_Outputs:
  assumes "update inp = Outputs r"
  shows "\<exists>x y. 0 < x \<and> x < 1 \<and> 0 < y \<and> is_double (Fin y)
           \<and> r = compute (Fin x) (Fin y) (js_Number (fractionalEl inp)) (bankrollEl inp)"
proof -
  let ?p = "parseProbability (pEl inp) (pFormatEl inp)"
  let ?b = "parseNetOdds (oddsEl inp) (oddsFormatEl inp)"
  from assms have e: "problems_of ?p ?b = []"
    by (simp add: update_def Let_def split: if_splits)
  with assms obtain pv bv where pb: "?p = Some pv" "?b = Some bv"
    and r: "r = compute pv bv (js_Number (fractionalEl inp)) (bankrollEl inp)"
    by (cases ?p; cases ?b) (simp_all add: update_def Let_def)
  from e pb have p: "Number_isFinite pv" "\<not> jle pv (Fin 0)" "\<not> jge pv (Fin 1)"
    and b: "Number_isFinite bv" "\<not> jle bv (Fin 0)"
    by (simp_all add: problems_of_def split: if_splits)
  from p obtain x where x: "pv = Fin x" "0 < x" "x < 1"
    by (cases pv) (simp_all add: Number_isFinite_def jle_def jge_def)
  from b obtain y where y: "bv = Fin y" "0 < y"
    by (cases bv) (simp_all add: Number_isFinite_def jle_def)
  have "is_double (Fin y)" using is_double_parseNetOdds [OF pb(2)] y(1) by simp
  with x y r show ?thesis by blast
qed

text \<open>On that path the raw Kelly fraction is at most 1: it is never NaN or \<open>+Infinity\<close>.\<close>

lemma kellyFraction_bounded:
  assumes "0 < x" and "x < 1" and "0 < y" and "is_double (Fin y)"
  shows "kellyFraction (Fin x) (Fin y) = NInf \<or> kellyFraction (Fin x) (Fin y) = NegZero
         \<or> (\<exists>z. kellyFraction (Fin x) (Fin y) = Fin z \<and> z \<le> 1)"
proof -
  from assms(4) have dy: "fl y = Fin y" by simp
  have "0 \<le> y * x" "y * x \<le> y" using assms(1-3) by simp_all
  then obtain w where w: "fl (y * x) = Fin w" "0 \<le> w" "w \<le> y"
    using fl_le_double [OF _ _ dy] by blast
  have "0 \<le> 1 - x" "1 - x \<le> 1" using assms(1,2) by simp_all
  then obtain q where q: "fl (1 - x) = Fin q" "0 \<le> q" "q \<le> 1"
    using fl_le_double [OF _ _ fl_one] by blast
  have k: "kellyFraction (Fin x) (Fin y) = jdiv (fl (w - q)) (Fin y)"
    using assms(1,3) w(1) q(1) by (simp add: kellyFraction_def jsub_Fin jmul_Fin)
  show ?thesis
  proof (cases "0 \<le> w - q")
    case True
    moreover have "w - q \<le> y" using w(3) q(2) by simp
    ultimately obtain s where s: "fl (w - q) = Fin s" "0 \<le> s" "s \<le> y"
      using fl_le_double [OF _ _ dy] by blast
    have "0 \<le> s / y" "s / y \<le> 1" using s(2,3) assms(3) by simp_all
    then obtain z where "fl (s / y) = Fin z" "0 \<le> z" "z \<le> 1"
      using fl_le_double [OF _ _ fl_one] by blast
    then show ?thesis using k s(1) assms(3) by (simp add: jdiv_Fin)
  next
    case False
    then have "w - q < 0" by simp
    then consider "fl (w - q) = NInf" | "fl (w - q) = NegZero"
      | s where "fl (w - q) = Fin s" "s < 0"
      using fl_negative by blast
    then show ?thesis
    proof cases
      case 1
      then show ?thesis using k assms(3) by (simp add: jdiv_def is_inf_def sinf_def)
    next
      case 2
      then show ?thesis using k assms(3)
        by (simp add: jdiv_def is_inf_def is_zero_def szero_def)
    next
      case 3
      then have "s / y < 0" using assms(3) by (simp add: divide_neg_pos)
      then consider "fl (s / y) = NInf" | "fl (s / y) = NegZero"
        | z where "fl (s / y) = Fin z" "z < 0"
        using fl_negative by blast
      then show ?thesis using k 3(1) assms(3) by cases (simp_all add: jdiv_Fin)
    qed
  qed
qed

lemma Math_max_zero_bounded:
  assumes "a = NInf \<or> a = NegZero \<or> (\<exists>z. a = Fin z \<and> z \<le> 1)"
  shows "\<exists>c. Math_max (Fin 0) a = Fin c \<and> 0 \<le> c \<and> c \<le> 1"
  using assms by (auto simp add: Math_max_def jlt_def)

lemma clamp_cases:
  assumes "0 \<le> c"
  shows "clamp a (Fin 0) (Fin c) = NaN \<or> (\<exists>z. clamp a (Fin 0) (Fin c) = Fin z \<and> 0 \<le> z \<and> z \<le> c)"
  using assms by (cases a) (auto simp add: clamp_def Math_max_def Math_min_def jlt_def)

lemma clamp_range:
  assumes "0 \<le> c" and "a \<noteq> NaN"
  shows "\<exists>z. clamp a (Fin 0) (Fin c) = Fin z \<and> 0 \<le> z \<and> z \<le> c"
  using assms by (cases a) (auto simp add: clamp_def Math_max_def Math_min_def jlt_def)

lemma jmul_finite_not_NaN: "is_fin a \<Longrightarrow> is_fin b \<Longrightarrow> jmul a b \<noteq> NaN"
  by (cases a; cases b) (simp_all add: jmul_def is_inf_def szero_def)

text \<open>
  For a fraction between 0 and \<open>0.9999\<close> both factors of the growth are positive, so
  the growth is defined; it is also defined for NaN.
\<close>

lemma expectedLogGrowth_NaN: "expectedLogGrowth p b NaN \<noteq> None"
  by (simp add: expectedLogGrowth_def jmul_def jadd_def jsub_def jle_def Let_def)

lemma growth_factors_positive:
  assumes "0 < y" and "0 \<le> z" and "z \<le> 4503149267407759 / 4503599627370496"
  shows "jgt (jadd (Fin 1) (jmul (Fin z) (Fin y))) (Fin 0)"
    and "jgt (jsub (Fin 1) (Fin z)) (Fin 0)"
proof -
  have u: "(2::real) powi (- 1074) \<le> 1 / 20000" by simp
  have pos: "jgt (fl t) (Fin 0)" if "2 powi (- 1074) \<le> t" for t
  proof -
    have "fl t = PInf \<or> (\<exists>s. fl t = Fin s \<and> 2 powi (- 1074) \<le> s)"
      using that by (rule fl_positive)
    moreover have "(0::real) < 2 powi (- 1074)" by simp
    ultimately show ?thesis by (auto simp add: jgt_def jlt_def)
  qed
  have "0 \<le> z * y" using assms(1,2) by simp
  then have "fl (z * y) = PInf \<or> (\<exists>w. fl (z * y) = Fin w \<and> 0 \<le> w)" by (rule fl_nonneg)
  then show "jgt (jadd (Fin 1) (jmul (Fin z) (Fin y))) (Fin 0)"
  proof
    assume "fl (z * y) = PInf"
    then show ?thesis using assms(1,2)
      by (simp add: jmul_Fin jadd_def is_inf_def jgt_def jlt_def)
  next
    assume "\<exists>w. fl (z * y) = Fin w \<and> 0 \<le> w"
    then obtain w where w: "fl (z * y) = Fin w" "0 \<le> w" by blast
    then have "2 powi (- 1074) \<le> 1 + w" using u by linarith
    then have "jgt (fl (1 + w)) (Fin 0)" by (rule pos)
    then show ?thesis using assms(1,2) w(1) by (simp add: jmul_Fin jadd_Fin)
  qed
  have "2 powi (- 1074) \<le> 1 - z" using u assms(3) by linarith
  then have "jgt (fl (1 - z)) (Fin 0)" by (rule pos)
  then show "jgt (jsub (Fin 1) (Fin z)) (Fin 0)" by (simp add: jsub_Fin)
qed

lemma jgt_not_jle: "jgt a b \<Longrightarrow> \<not> jle a b"
  by (cases a; cases b) (auto simp add: jgt_def jlt_def jle_def)

lemma expectedLogGrowth_defined:
  assumes "0 < y" and "0 \<le> z" and "z \<le> 4503149267407759 / 4503599627370496"
  shows "expectedLogGrowth p (Fin y) (Fin z) \<noteq> None"
  using growth_factors_positive [OF assms, THEN jgt_not_jle]
  by (simp add: expectedLogGrowth_def Let_def)

section \<open>Finite results\<close>

lemma rmag_below_overflow:
  assumes "0 \<le> a" and "a < 2 powi 1024 - 2 powi 970"
  shows "rmag a < 2 powi 1024"
proof (cases "expo a < 1023")
  case True
  then have "rmag a \<le> 2 powi (expo a + 1)" by (rule rmag_upper)
  also have "\<dots> \<le> 2 powi 1023" using True by (intro powi2_mono) simp
  also have "\<dots> < 2 powi 1024" by (intro powi2_strict_mono) simp
  finally show ?thesis .
next
  case False
  then have e: "expo a = 1023" using expo_range(2) [of a] by simp
  let ?u = "(2::real) powi 971"
  have u: "0 < ?u" by simp
  have big: "(2::real) powi 1024 = 2 ^ 53 * ?u" using powi2_shift [of 53 1024] by simp
  have half: "(2::real) powi 970 = (1 / 2) * ?u"
    using powi2_add [of 970 1] by simp
  have "a / ?u < (2 ^ 53 * ?u - (1 / 2) * ?u) / ?u"
    using assms(2) u unfolding big half by (intro divide_strict_right_mono) simp_all
  also have "(2 ^ 53 * ?u - (1 / 2) * ?u) / ?u = 2 ^ 53 - 1 / 2"
    using u by (simp add: field_simps)
  finally have m: "a / ?u < 2 ^ 53 - 1 / 2" .
  have "of_int (rne (a / ?u)) \<le> a / ?u + 1 / 2" using rne_error [of "a / ?u"] by linarith
  with m have "(of_int (rne (a / ?u)) :: real) < 2 ^ 53" by linarith
  then have "of_int (rne (a / ?u)) * ?u < 2 ^ 53 * ?u" using u by (simp only: mult_less_cancel_right_pos)
  then show ?thesis unfolding big by (simp add: rmag_def e)
qed

lemma rmag_fixed_le_max:
  assumes "0 \<le> y" and "rmag y = y" and "y < 2 powi 1024"
  shows "y \<le> 2 powi 1024 - 2 powi 971"
proof (cases "expo y < 1023")
  case True
  then have "rmag y \<le> 2 powi (expo y + 1)" by (rule rmag_upper)
  also have "\<dots> \<le> 2 powi 1023" using True by (intro powi2_mono) simp
  also have "\<dots> \<le> 2 powi 1024 - 2 powi 971"
  proof -
    have "(2::real) powi 1024 = 2 powi 1023 + 2 powi 1023" using powi2_add [of 1023 1] by simp
    moreover have "(2::real) powi 971 \<le> 2 powi 1023" by (intro powi2_mono) simp
    ultimately show ?thesis by linarith
  qed
  finally show ?thesis using assms(2) by simp
next
  case False
  then have e: "expo y = 1023" using expo_range(2) [of y] by simp
  let ?u = "(2::real) powi 971"
  let ?n = "rne (y / ?u)"
  have u: "0 < ?u" by simp
  have big: "(2::real) powi 1024 = of_int (2 ^ 53) * ?u" using powi2_shift [of 53 1024] by simp
  have y: "y = of_int ?n * ?u" using assms(2) by (simp add: rmag_def e)
  with assms(3) have "of_int ?n * ?u < of_int (2 ^ 53) * ?u" unfolding big by simp
  then have "(of_int ?n :: real) < of_int (2 ^ 53)" using u by (simp only: mult_less_cancel_right_pos)
  then have "?n < 2 ^ 53" by (simp only: of_int_less_iff)
  then have "?n \<le> 2 ^ 53 - 1" by simp
  then have "(of_int ?n :: real) \<le> of_int (2 ^ 53 - 1)" by (simp only: of_int_le_iff)
  then have "of_int ?n * ?u \<le> of_int (2 ^ 53 - 1) * ?u" using u by (intro mult_right_mono) simp_all
  also have "of_int (2 ^ 53 - 1) * ?u = of_int (2 ^ 53) * ?u - ?u" by (simp add: algebra_simps)
  finally show ?thesis using y big by simp
qed

lemma double_le_max:
  assumes "fl y = Fin y"
  shows "\<bar>y\<bar> \<le> 2 powi 1024 - 2 powi 971"
proof -
  consider "y = 0" | "0 < y" | "y < 0" by linarith
  then show ?thesis
  proof cases
    case 1
    have "(2::real) powi 971 \<le> 2 powi 1024" by (intro powi2_mono) simp
    with 1 show ?thesis by simp
  next
    case 2
    with assms have "rmag y = y" "y < 2 powi 1024" by (simp_all add: fl_pos_eq split: if_splits)
    with 2 show ?thesis using rmag_fixed_le_max [of y] by simp
  next
    case 3
    with assms have "rmag (- y) = - y" "- y < 2 powi 1024"
      by (simp_all add: fl_neg_eq split: if_splits)
    with 3 show ?thesis using rmag_fixed_le_max [of "- y"] by simp
  qed
qed

text \<open>A sum or difference of 1 and a binary64 value does not overflow.\<close>

lemma fl_near_max_finite:
  assumes "0 \<le> a" and "a \<le> 1 + (2 powi 1024 - 2 powi 971)"
  shows "\<exists>t. fl a = Fin t \<and> 0 \<le> t"
proof (cases "a = 0")
  case True
  then show ?thesis by simp
next
  case False
  have "(2::real) powi 971 = 2 powi 970 + 2 powi 970" using powi2_add [of 970 1] by simp
  moreover have "(1::real) < 2 powi 970" using powi2_strict_mono [of 0 970] by simp
  ultimately have "a < 2 powi 1024 - 2 powi 970" using assms(2) by linarith
  with assms(1) have "rmag a < 2 powi 1024" by (rule rmag_below_overflow)
  moreover have "0 \<le> rmag a" using assms(1) by (rule rmag_nonneg)
  ultimately show ?thesis using False assms(1) by (simp add: fl_pos_eq)
qed

text \<open>Rounding keeps a bound that is a binary64 value, on both sides of zero.\<close>

lemma fl_abs_le:
  assumes "\<bar>x\<bar> \<le> Y" and "fl Y = Fin Y"
  shows "is_fin (fl x) \<and> \<bar>val (fl x)\<bar> \<le> Y"
proof -
  consider "0 \<le> x" | "x < 0" by linarith
  then show ?thesis
  proof cases
    case 1
    with assms obtain z where "fl x = Fin z" "0 \<le> z" "z \<le> Y"
      using fl_le_double [of x Y] by auto
    then show ?thesis by simp
  next
    case 2
    with assms obtain z where z: "fl (- x) = Fin z" "0 \<le> z" "z \<le> Y"
      using fl_le_double [of "- x" Y] by auto
    have "fl x = jneg (fl (- x))" using 2 fl_uminus [of "- x"] by simp
    then show ?thesis using z by (cases "z = 0") simp_all
  qed
qed

lemma jmul_bounded:
  assumes "is_fin a" and "is_fin b" and "\<bar>val a * val b\<bar> \<le> Y" and "fl Y = Fin Y"
  shows "is_fin (jmul a b) \<and> \<bar>val (jmul a b)\<bar> \<le> Y"
proof (cases "val a * val b = 0")
  case True
  have "a \<noteq> NaN" "b \<noteq> NaN" "\<not> is_inf a" "\<not> is_inf b"
    using assms(1,2) by (auto simp add: is_inf_def)
  then have "jmul a b = szero (neg a \<noteq> neg b)" using True by (simp add: jmul_def)
  then show ?thesis using assms(3) True by (simp add: szero_def)
next
  case False
  have "a \<noteq> NaN" "b \<noteq> NaN" "\<not> is_inf a" "\<not> is_inf b"
    using assms(1,2) by (auto simp add: is_inf_def)
  then have "jmul a b = fl (val a * val b)" using False by (simp add: jmul_def)
  then show ?thesis using fl_abs_le [OF assms(3,4)] by simp
qed

lemma jadd_bounded:
  assumes "is_fin a" and "is_fin b" and "\<bar>val a + val b\<bar> \<le> Y" and "fl Y = Fin Y"
  shows "is_fin (jadd a b)"
proof (cases "val a + val b = 0")
  case True
  have "a \<noteq> NaN" "b \<noteq> NaN" "\<not> is_inf a" "\<not> is_inf b"
    using assms(1,2) by (auto simp add: is_inf_def)
  then have "jadd a b = szero (neg a \<and> neg b)" using True by (simp add: jadd_def)
  then show ?thesis by (simp add: szero_def)
next
  case False
  have "a \<noteq> NaN" "b \<noteq> NaN" "\<not> is_inf a" "\<not> is_inf b"
    using assms(1,2) by (auto simp add: is_inf_def)
  then have "jadd a b = fl (val a + val b)" using False by (simp add: jadd_def)
  then show ?thesis using fl_abs_le [OF assms(3,4)] by simp
qed

subsection \<open>The logarithm of a positive binary64 value\<close>

lemma ln_powi2: "ln ((2::real) powi k) = of_int k * ln 2"
proof -
  have "(2::real) powr of_int k = 2 powi k" by (rule powr_real_of_int') simp_all
  then have "ln ((2::real) powi k) = ln (2 powr of_int k)" by simp
  then show ?thesis by (simp only: ln_powr)
qed

lemma ln_double_bound:
  fixes t :: real
  assumes "2 powi (- 1074) \<le> t" and "t < 2 powi 1024"
  shows "\<bar>ln t\<bar> \<le> 2048"
proof -
  have t: "0 < t" using assms(1) powi2_pos [of "- 1074"] by linarith
  have l2: "0 < ln (2::real)" "ln (2::real) < 1" using ln_2_less_1 by simp_all
  have "ln t \<le> ln (2 powi 1024)" using assms(2) t by (intro ln_mono) simp_all
  also have "\<dots> = 1024 * ln 2" using ln_powi2 [of 1024] by simp
  finally have up: "ln t \<le> 1024" using l2 by linarith
  have "ln (2 powi (- 1074)) \<le> ln t" using assms(1) by (intro ln_mono) simp_all
  moreover have "ln ((2::real) powi (- 1074)) = - 1074 * ln 2" using ln_powi2 [of "- 1074"] by simp
  ultimately have "- 1074 \<le> ln t" using l2 by linarith
  with up show ?thesis by simp
qed

lemma fl_2048: "fl 2048 = Fin 2048"
  by (rule fl_evalI [where e = 11 and n = "2 ^ 52"]) (simp_all add: rne_def)

lemma fl_4096: "fl 4096 = Fin 4096"
  by (rule fl_evalI [where e = 12 and n = "2 ^ 52"]) (simp_all add: rne_def)

lemma Math_log_bounded:
  assumes "2 powi (- 1074) \<le> t" and "t < 2 powi 1024"
  shows "is_fin (Math_log (Fin t)) \<and> \<bar>val (Math_log (Fin t))\<bar> \<le> 2048"
proof -
  have t: "0 < t" using assms(1) powi2_pos [of "- 1074"] by linarith
  then have "Math_log (Fin t) = fl (ln t)" by (simp add: Math_log_def)
  then show ?thesis using fl_abs_le [OF ln_double_bound [OF assms] fl_2048] by simp
qed

section \<open>The factors of the expected growth\<close>

lemma fl_minus_one: "fl (- 1) = Fin (- 1)"
  using fl_uminus [of 1] by (simp add: fl_one)

lemma fl_uminus_double: "fl v = Fin v \<Longrightarrow> fl (- v) = Fin (- v)"
  using fl_uminus [of v] by (cases "v = 0") simp_all

lemma double_lt_overflow: "fl t = Fin t \<Longrightarrow> \<bar>t\<bar> < 2 powi 1024"
proof -
  assume "fl t = Fin t"
  then have "\<bar>t\<bar> \<le> 2 powi 1024 - 2 powi 971" by (rule double_le_max)
  moreover have "(0::real) < 2 powi 971" by simp
  ultimately show ?thesis by linarith
qed

text \<open>One plus a binary64 value above \<open>-1\<close> is a positive binary64 value.\<close>

lemma one_plus_double:
  assumes "fl v = Fin v" and "- 1 < v"
  shows "\<exists>t. fl (1 + v) = Fin t \<and> 2 powi (- 1074) \<le> t \<and> t < 2 powi 1024"
proof -
  obtain n :: int where n: "v = of_int n * 2 powi (- 1074)" using fl_grid [OF assms(1)] by blast
  obtain m :: int where m: "- 1 = of_int m * (2::real) powi (- 1074)"
    using fl_grid [OF fl_minus_one] by blast
  have "2 powi (- 1074) \<le> v - (- 1)" using m n assms(2) by (rule grid_gap)
  then have low: "2 powi (- 1074) \<le> 1 + v" by simp
  have "\<bar>v\<bar> \<le> 2 powi 1024 - 2 powi 971" using assms(1) by (rule double_le_max)
  then have "1 + v \<le> 1 + (2 powi 1024 - 2 powi 971)" by linarith
  moreover have "0 \<le> 1 + v" using assms(2) by simp
  ultimately obtain t where t: "fl (1 + v) = Fin t" using fl_near_max_finite by blast
  with fl_positive [OF low] have "2 powi (- 1074) \<le> t" by simp
  moreover have "fl t = Fin t" using t by (rule fl_idem)
  then have "\<bar>t\<bar> < 2 powi 1024" by (rule double_lt_overflow)
  ultimately show ?thesis using t by auto
qed

lemma positive_not_jle_zero: "2 powi (- 1074) \<le> t \<Longrightarrow> \<not> jle (Fin t) (Fin 0)"
proof -
  assume "2 powi (- 1074) \<le> t"
  moreover have "(0::real) < 2 powi (- 1074)" by simp
  ultimately have "0 < t" by linarith
  then show ?thesis by (simp add: jle_def)
qed

lemma fl_nonpos_jle_zero: "x \<le> 0 \<Longrightarrow> jle (fl x) (Fin 0)"
proof (cases "x = 0")
  case True
  then show ?thesis by (simp add: jle_def)
next
  case False
  assume "x \<le> 0"
  with False have "x < 0" by simp
  then show ?thesis using fl_negative [of x] by (auto simp add: jle_def)
qed

text \<open>The factor \<open>1 - f\<close> is at most zero exactly when \<open>f \<ge> 1\<close>.\<close>

lemma loseFactor_sign:
  assumes "is_double f"
  shows "jle (jsub (Fin 1) f) (Fin 0) = jge f (Fin 1)"
proof (cases f)
  case (Fin z)
  with assms have dz: "fl z = Fin z" by simp
  show ?thesis
  proof (cases "z < 1")
    case True
    have "fl (- z) = Fin (- z)" using dz by (rule fl_uminus_double)
    moreover have "- 1 < - z" using True by simp
    ultimately obtain t where "fl (1 + - z) = Fin t" "2 powi (- 1074) \<le> t"
      using one_plus_double by blast
    then have "\<not> jle (fl (1 - z)) (Fin 0)" using positive_not_jle_zero by simp
    then show ?thesis using Fin True by (simp add: jsub_Fin jge_def jle_def)
  next
    case False
    then have "jle (fl (1 - z)) (Fin 0)" by (intro fl_nonpos_jle_zero) simp
    then show ?thesis using Fin False by (simp add: jsub_Fin jge_def jle_def)
  qed
next
  case NegZero
  then show ?thesis by (simp add: jsub_def jadd_Fin fl_one jge_def jle_def)
qed (simp_all add: jsub_def jadd_def is_inf_def jge_def jle_def)

text \<open>The factor \<open>1 + w\<close> is at most zero exactly when \<open>w \<le> -1\<close>.\<close>

lemma winFactor_sign:
  assumes "is_double w"
  shows "jle (jadd (Fin 1) w) (Fin 0) = jle w (Fin (- 1))"
proof (cases w)
  case (Fin v)
  with assms have dv: "fl v = Fin v" by simp
  show ?thesis
  proof (cases "- 1 < v")
    case True
    then obtain t where "fl (1 + v) = Fin t" "2 powi (- 1074) \<le> t"
      using one_plus_double [OF dv] by blast
    then have "\<not> jle (fl (1 + v)) (Fin 0)" using positive_not_jle_zero by simp
    then show ?thesis using Fin True by (simp add: jadd_Fin jle_def)
  next
    case False
    then have "jle (fl (1 + v)) (Fin 0)" by (intro fl_nonpos_jle_zero) simp
    then show ?thesis using Fin False by (simp add: jadd_Fin jle_def)
  qed
next
  case NegZero
  then show ?thesis by (simp add: jadd_def is_inf_def fl_one jle_def)
qed (simp_all add: jadd_def is_inf_def jle_def)

text \<open>Both factors are positive binary64 values when they are above zero.\<close>

lemma factor_positive:
  assumes "is_double w" and "is_fin w" and "\<not> jle w (Fin (- 1))"
  shows "\<exists>t. jadd (Fin 1) w = Fin t \<and> 2 powi (- 1074) \<le> t \<and> t < 2 powi 1024"
proof -
  have dv: "fl (val w) = Fin (val w)" using assms(1,2) by (cases w) simp_all
  have v: "- 1 < val w" using assms(2,3) by (cases w) (simp_all add: jle_def)
  have "jadd (Fin 1) w = fl (1 + val w)" using assms(2) v by (cases w) (simp_all add: jadd_def is_inf_def)
  then show ?thesis using one_plus_double [OF dv v] by simp
qed

lemma expectedLogGrowth_finite:
  assumes "0 < x" and "x < 1" and "0 < y" and "is_double (Fin y)" and "is_double f"
    and "f \<noteq> NaN" and "\<not> jge f (Fin 1)" and "\<not> jle (jmul f (Fin y)) (Fin (- 1))"
  shows "is_fin (jadd (jmul (Fin x) (Math_log (jadd (Fin 1) (jmul f (Fin y)))))
                     (jmul (jsub (Fin 1) (Fin x)) (Math_log (jsub (Fin 1) f))))"
proof -
  let ?w = "jmul f (Fin y)"
  have ff: "is_fin f" using assms(3,6,7,8)
    by (cases f) (simp_all add: jge_def jle_def jmul_def is_inf_def is_zero_def sinf_def)
  have dy: "fl y = Fin y" using assms(4) by simp
  have fw: "is_fin ?w"
  proof (cases "val f * y = 0")
    case True
    then show ?thesis using ff by (cases f) (simp_all add: jmul_def is_inf_def szero_def)
  next
    case False
    with ff have w: "?w = fl (val f * y)" by (cases f) (simp_all add: jmul_def is_inf_def)
    show ?thesis
    proof (cases "0 < val f")
      case True
      have "val f < 1" using ff assms(7) by (cases f) (simp_all add: jge_def jle_def)
      with True assms(3) have "\<bar>val f * y\<bar> \<le> y"
        by (simp add: abs_mult mult_left_le_one_le)
      then show ?thesis using fl_abs_le [OF _ dy] w by simp
    next
      case False
      with \<open>val f * y \<noteq> 0\<close> assms(3) have "val f * y < 0"
        by (simp add: mult_less_0_iff not_less order.order_iff_strict)
      then show ?thesis using fl_negative [of "val f * y"] w assms(8) by (auto simp add: jle_def)
    qed
  qed
  obtain t1 where t1: "jadd (Fin 1) ?w = Fin t1" "2 powi (- 1074) \<le> t1" "t1 < 2 powi 1024"
    using factor_positive [OF is_double_jmul fw assms(8)] by blast
  have L1: "is_fin (Math_log (Fin t1))" "\<bar>val (Math_log (Fin t1))\<bar> \<le> 2048"
    using Math_log_bounded [OF t1(2,3)] by simp_all
  have dn: "is_double (jneg f)" using assms(5) by (rule is_double_jneg)
  have fn: "is_fin (jneg f)" using ff by (cases f) simp_all
  have "\<not> jle (jneg f) (Fin (- 1))" using ff assms(7) by (cases f) (simp_all add: jge_def jle_def)
  then obtain t2 where t2: "jsub (Fin 1) f = Fin t2" "2 powi (- 1074) \<le> t2" "t2 < 2 powi 1024"
    using factor_positive [OF dn fn] by (auto simp add: jsub_def)
  have L2: "is_fin (Math_log (Fin t2))" "\<bar>val (Math_log (Fin t2))\<bar> \<le> 2048"
    using Math_log_bounded [OF t2(2,3)] by simp_all
  have "\<bar>x * val (Math_log (Fin t1))\<bar> \<le> 2048"
  proof -
    have "\<bar>x * val (Math_log (Fin t1))\<bar> = x * \<bar>val (Math_log (Fin t1))\<bar>"
      using assms(1) by (simp add: abs_mult)
    also have "\<dots> \<le> 1 * \<bar>val (Math_log (Fin t1))\<bar>" using assms(2) by (intro mult_right_mono) simp_all
    finally show ?thesis using L1(2) by simp
  qed
  then have P: "is_fin (jmul (Fin x) (Math_log (Fin t1)))"
    "\<bar>val (jmul (Fin x) (Math_log (Fin t1)))\<bar> \<le> 2048"
    using jmul_bounded [OF _ L1(1) _ fl_2048, of "Fin x"] by simp_all
  have "\<bar>1 - x\<bar> \<le> 1" using assms(1,2) by simp
  then have q: "is_fin (fl (1 - x))" "\<bar>val (fl (1 - x))\<bar> \<le> 1"
    using fl_abs_le [OF _ fl_one] by simp_all
  have "\<bar>val (fl (1 - x)) * val (Math_log (Fin t2))\<bar> \<le> 2048"
  proof -
    have "\<bar>val (fl (1 - x)) * val (Math_log (Fin t2))\<bar>
        = \<bar>val (fl (1 - x))\<bar> * \<bar>val (Math_log (Fin t2))\<bar>" by (simp add: abs_mult)
    also have "\<dots> \<le> 1 * \<bar>val (Math_log (Fin t2))\<bar>" using q(2) by (intro mult_right_mono) simp_all
    finally show ?thesis using L2(2) by simp
  qed
  then have Q: "is_fin (jmul (fl (1 - x)) (Math_log (Fin t2)))"
    "\<bar>val (jmul (fl (1 - x)) (Math_log (Fin t2)))\<bar> \<le> 2048"
    using jmul_bounded [OF q(1) L2(1) _ fl_2048] by simp_all
  have "\<bar>val (jmul (Fin x) (Math_log (Fin t1))) + val (jmul (fl (1 - x)) (Math_log (Fin t2)))\<bar>
      \<le> 4096" using P(2) Q(2) by linarith
  then have "is_fin (jadd (jmul (Fin x) (Math_log (Fin t1)))
      (jmul (fl (1 - x)) (Math_log (Fin t2))))"
    using jadd_bounded [OF P(1) Q(1) _ fl_4096] by simp
  then show ?thesis by (simp add: t1(1) t2(1) jsub_Fin)
qed

text \<open>For the fraction NaN both comparisons are false and the growth is NaN.\<close>

lemma expectedLogGrowth_of_NaN: "expectedLogGrowth p b NaN = Some NaN"
proof -
  have "Math_log NaN = NaN" by (simp add: Math_log_def)
  moreover have "jmul a NaN = NaN" for a by (simp add: jmul_def)
  moreover have "jadd NaN a = NaN" "jadd a NaN = NaN" for a by (simp_all add: jadd_def)
  moreover have "jsub a NaN = NaN" for a by (simp add: jsub_def jadd_def)
  moreover have "jmul NaN a = NaN" for a by (simp add: jmul_def)
  moreover have "\<not> jle NaN a" for a by (simp add: jle_def)
  ultimately show ?thesis by (simp add: expectedLogGrowth_def Let_def)
qed

section \<open>The claims\<close>

text \<open>
  C8: for every \<open>p\<close> in \<open>(0,1)\<close> and every \<open>b > 0\<close>, \<^verbatim>\<open>kellyFraction(p, b)\<close> is
  \<open>(b * p - (1 - p)) / b\<close>, the direct arithmetic of the full Kelly formula with
  \<open>q = 1 - p\<close>.  The equation holds for all arguments.
\<close>

theorem kellyFraction_direct:
  "kellyFraction p b = jdiv (jsub (jmul b p) (jsub (Fin 1) p)) b"
  by (simp add: kellyFraction_def)

text \<open>
  C10: \<^verbatim>\<open>parseProbability\<close> of the empty string is \<open>0\<close> in the decimal and in the percent
  format, never \<^verbatim>\<open>null\<close>; so \<^verbatim>\<open>update\<close> reports an empty probability field as outside
  the open interval \<open>(0,1)\<close>, and not as missing or not a number.
\<close>

theorem empty_probability_is_zero:
  "parseProbability [] ''decimal'' = Some (Fin 0)
   \<and> parseProbability [] ''percent'' = Some (Fin 0)
   \<and> (\<exists>ps. update (inp\<lparr>pEl := []\<rparr>) = Problems ps
         \<and> ''Probability (p) must be between 0 and 1 (exclusive).'' \<in> set ps
         \<and> ''Probability (p) is missing or not a number.'' \<notin> set ps)"
proof -
  have p: "parseProbability [] f = Some (Fin 0)" for f
    by (simp add: parseProbability_def js_Number_empty Number_isFinite_def jdiv_def
        is_inf_def is_zero_def szero_def Let_def)
  have "update (inp\<lparr>pEl := []\<rparr>)
        = Problems (problems_of (Some (Fin 0)) (parseNetOdds (oddsEl inp) (oddsFormatEl inp)))"
    by (simp add: update_def p Let_def problems_of_def jle_def)
  moreover have "''Probability (p) must be between 0 and 1 (exclusive).''
        \<in> set (problems_of (Some (Fin 0)) b)" for b
    by (simp add: problems_of_def jle_def)
  moreover have "''Probability (p) is missing or not a number.''
        \<notin> set (problems_of (Some (Fin 0)) b)" for b
    by (simp add: problems_of_def Number_isFinite_def)
  ultimately show ?thesis using p by simp
qed

text \<open>
  C7: for every odds text that parses in the decimal format to a number \<open>D\<close>:
  \<^verbatim>\<open>parseNetOdds\<close> returns \<open>D - 1\<close> when \<open>D\<close> is finite and \<open>D > 1\<close>, and \<^verbatim>\<open>null\<close> when
  \<open>D \<le> 1\<close> (also at \<open>D = 1\<close>) or \<open>D\<close> is not finite.
\<close>

theorem parseNetOdds_decimal:
  "parseNetOdds s ''decimal'' =
     (let D = js_Number s
      in if Number_isFinite D \<and> jgt D (Fin 1) then Some (jsub D (Fin 1)) else None)"
proof (cases "js_trim s = []")
  case True
  then show ?thesis
    by (simp add: parseNetOdds_def js_Number_blank jgt_def jlt_def)
next
  case False
  then show ?thesis
    by (auto simp add: parseNetOdds_def js_Number_trim Let_def Number_isFinite_def jle_not_jgt)
qed

theorem parseNetOdds_decimal_witness:
  "parseNetOdds ''2.10'' ''decimal'' = Some (Fin (2476979795053773 / 2251799813685248))
   \<and> parseNetOdds ''1'' ''decimal'' = None"
proof -
  have "js_Number ''1'' = fl 1" by (simp add: parse_defs)
  then have one: "js_Number ''1'' = Fin 1" by (simp only: fl_one)
  show ?thesis
    using parseNetOdds_decimal [of "''2.10''"] parseNetOdds_decimal [of "''1''"]
    by (simp add: num_210 one b_decimal Number_isFinite_def jgt_def jlt_def)
qed

text \<open>
  C1 as stated: in scenario 1 (probability \<^verbatim>\<open>0.55\<close> and odds \<^verbatim>\<open>2.10\<close>, both decimal,
  multiplier 1, bankroll \<^verbatim>\<open>1000\<close>) the outputs are \<open>b = 1.10\<close>, \<open>q = 0.45\<close>, the raw,
  clamped and applied fractions about \<open>0.0909\<close> and the stake about \<open>90.91\<close>.  This
  fails: the raw fraction is \<open>0.14090909...\<close> and the stake is \<open>140.909...\<close>.
\<close>

theorem scenario1_counterexample:
  "update scenario1 =
     Outputs (compute (Fin (2476979795053773 / 4503599627370496))
       (Fin (2476979795053773 / 2251799813685248)) (Fin 1) ''1000'')
   \<and> res_fStar (compute (Fin (2476979795053773 / 4503599627370496))
       (Fin (2476979795053773 / 2251799813685248)) (Fin 1) ''1000'')
     = Fin (5076785034490381 / 36028797018963968)
   \<and> \<not> approx 4 (Fin (5076785034490381 / 36028797018963968)) (909 / 10000)
   \<and> res_stake (compute (Fin (2476979795053773 / 4503599627370496))
       (Fin (2476979795053773 / 2251799813685248)) (Fin 1) ''1000'')
     = Some (Fin (4957797885244513 / 35184372088832))
   \<and> \<not> approx 2 (Fin (4957797885244513 / 35184372088832)) (9091 / 100)"
proof -
  have "\<not> approx 4 (Fin (5076785034490381 / 36028797018963968)) (909 / 10000)"
    by (simp add: approx_def)
  moreover have "\<not> approx 2 (Fin (4957797885244513 / 35184372088832)) (9091 / 100)"
    by (simp add: approx_def)
  ultimately show ?thesis using scenario1_update scenario1_compute(3,6) by blast
qed

text \<open>
  C1, amended: in scenario 1 the outputs are \<open>b = 1.10\<close> and \<open>q = 0.45\<close> to two decimals,
  the raw, clamped and applied fractions are \<open>0.1409\<close> to four decimals, and the stake is
  \<open>140.91\<close> to two decimals.
\<close>

theorem scenario1_values:
  "\<exists>r. update scenario1 = Outputs r
     \<and> approx 2 (res_b r) (110 / 100)
     \<and> approx 2 (res_q r) (45 / 100)
     \<and> approx 4 (res_fStar r) (1409 / 10000)
     \<and> approx 4 (res_fStarClamped r) (1409 / 10000)
     \<and> approx 4 (res_fApplied r) (1409 / 10000)
     \<and> (\<exists>s. res_stake r = Some s \<and> approx 2 s (14091 / 100))"
proof -
  obtain r where r: "update scenario1 = Outputs r"
    "res_b r = Fin (2476979795053773 / 2251799813685248)"
    "res_q r = Fin (2026619832316723 / 4503599627370496)"
    "res_fStar r = Fin (5076785034490381 / 36028797018963968)"
    "res_fStarClamped r = Fin (5076785034490381 / 36028797018963968)"
    "res_fApplied r = Fin (5076785034490381 / 36028797018963968)"
    "res_stake r = Some (Fin (4957797885244513 / 35184372088832))"
    using scenario1_outputs by blast
  have "approx 2 (res_b r) (110 / 100)" by (simp add: r(2) approx_def)
  moreover have "approx 2 (res_q r) (45 / 100)" by (simp add: r(3) approx_def)
  moreover have "approx 4 (res_fStar r) (1409 / 10000)" by (simp add: r(4) approx_def)
  moreover have "approx 4 (res_fStarClamped r) (1409 / 10000)" by (simp add: r(5) approx_def)
  moreover have "approx 4 (res_fApplied r) (1409 / 10000)" by (simp add: r(6) approx_def)
  moreover have "approx 2 (Fin (4957797885244513 / 35184372088832)) (14091 / 100)"
    by (simp add: approx_def)
  ultimately show ?thesis using r(1,7) by blast
qed

text \<open>
  C5: the odds text \<^verbatim>\<open>11/10\<close> in the fractional format gives the net odds \<open>1.1\<close> (the
  binary64 number nearest to it), and every output of \<^verbatim>\<open>update\<close> is the same as with
  the odds text \<^verbatim>\<open>2.10\<close> in the decimal format, the other inputs being equal.
\<close>

theorem fractional_11_10_as_decimal_2_10:
  "parseNetOdds ''11/10'' ''fractional'' = Some (fl (11 / 10))
   \<and> update (inp\<lparr>oddsEl := ''11/10'', oddsFormatEl := ''fractional''\<rparr>)
     = update (inp\<lparr>oddsEl := ''2.10'', oddsFormatEl := ''decimal''\<rparr>)"
  by (simp add: update_def ex_b_fractional ex_b_decimal fl_11_10 Let_def split: option.split)

theorem fractional_11_10_as_decimal_2_10_witness:
  "update \<lparr> bankrollEl = ''1000'', pEl = ''0.55'', pFormatEl = ''decimal'',
            oddsEl = ''11/10'', oddsFormatEl = ''fractional'', fractionalEl = ''1'' \<rparr>
   = update scenario1"
  using fractional_11_10_as_decimal_2_10 [of scenario1] by (simp add: scenario1_def)

text \<open>
  C4: when a validation precondition is violated, \<^verbatim>\<open>update\<close> reports every problem
  that applies and not only the first one, and returns the list of problems alone, with
  no numeric output: each of the four messages is in the list exactly when its
  condition holds.  A probability that is not a number together with invalid odds gives
  both messages.
\<close>

theorem update_reports_every_problem:
  "(let p = parseProbability (pEl inp) (pFormatEl inp);
        b = parseNetOdds (oddsEl inp) (oddsFormatEl inp)
    in ((\<exists>ps. update inp = Problems ps) \<longleftrightarrow>
          p = None \<or> (\<exists>x. p = Some x \<and> (\<not> Number_isFinite x \<or> jle x (Fin 0) \<or> jge x (Fin 1)))
          \<or> b = None \<or> (\<exists>y. b = Some y \<and> (\<not> Number_isFinite y \<or> jle y (Fin 0))))
       \<and> (\<forall>ps. update inp = Problems ps \<longrightarrow>
            ps \<noteq> []
            \<and> (''Probability (p) is missing or not a number.'' \<in> set ps
                 \<longleftrightarrow> p = None \<or> (\<exists>x. p = Some x \<and> \<not> Number_isFinite x))
            \<and> (''Probability (p) must be between 0 and 1 (exclusive).'' \<in> set ps
                 \<longleftrightarrow> (\<exists>x. p = Some x \<and> (jle x (Fin 0) \<or> jge x (Fin 1))))
            \<and> (''Odds are missing/invalid (check format).'' \<in> set ps
                 \<longleftrightarrow> b = None \<or> (\<exists>y. b = Some y \<and> \<not> Number_isFinite y))
            \<and> (''Net odds (b) must be > 0.'' \<in> set ps
                 \<longleftrightarrow> (\<exists>y. b = Some y \<and> jle y (Fin 0)))))"
  by (cases "parseProbability (pEl inp) (pFormatEl inp)";
      cases "parseNetOdds (oddsEl inp) (oddsFormatEl inp)")
     (auto simp add: update_def problems_of_def Let_def)

theorem update_reports_every_problem_witness:
  "update scenario_abc = Problems [''Probability (p) is missing or not a number.'',
      ''Odds are missing/invalid (check format).'']
   \<and> parseProbability ''abc'' ''decimal'' = None
   \<and> parseNetOdds ''0.5'' ''decimal'' = None"
  using update_reports_every_problem [of scenario_abc] scenario_abc_problems
  by (simp add: Let_def scenario_abc_def scenario_abc_p scenario_abc_b)

text \<open>
  C9 as stated: a value returned by \<^verbatim>\<open>parseNetOdds\<close> is strictly positive, so the branch
  \<^verbatim>\<open>Net odds (b) must be > 0\<close> of \<^verbatim>\<open>update\<close> never fires.  This fails: the quotient of
  the fractional odds \<^verbatim>\<open>1e-200/1e200\<close> rounds to zero, \<^verbatim>\<open>parseNetOdds\<close> returns that zero
  and \<^verbatim>\<open>update\<close> reports the problem.
\<close>

theorem net_odds_zero_counterexample:
  "parseNetOdds ''1e-200/1e200'' ''fractional'' = Some (Fin 0)
   \<and> \<not> jgt (Fin 0) (Fin 0)
   \<and> update scenario_underflow = Problems [''Net odds (b) must be > 0.'']"
  by (simp add: underflow_odds jgt_def jlt_def update_def scenario_underflow_def ex_p
      problems_of_def Number_isFinite_def jle_def jge_def)

text \<open>
  C9, amended: a value returned by \<^verbatim>\<open>parseNetOdds\<close> is never negative and never NaN; in
  the decimal format it is strictly positive; in the fractional format it is the binary64
  quotient \<open>A / B\<close> of two positive numbers, strictly positive exactly when the exact
  quotient is above \<open>2 ^ -1075\<close>, half of the smallest positive binary64 value, and zero
  exactly when it is not; and the branch \<^verbatim>\<open>Net odds (b) must be > 0\<close> of \<^verbatim>\<open>update\<close> fires
  exactly when \<^verbatim>\<open>parseNetOdds\<close> returns zero.
\<close>

theorem parseNetOdds_sign:
  "(parseNetOdds s f = Some v \<longrightarrow>
      jge v (Fin 0)
      \<and> (f = ''decimal'' \<longrightarrow> jgt v (Fin 0))
      \<and> (f \<noteq> ''decimal'' \<longrightarrow>
           (\<exists>x y a b. js_split CHR ''/'' (js_trim s) = [x, y]
              \<and> js_Number (js_trim x) = Fin a \<and> js_Number (js_trim y) = Fin b
              \<and> 0 < a \<and> 0 < b \<and> v = jdiv (Fin a) (Fin b)
              \<and> (jgt v (Fin 0) \<longleftrightarrow> 2 powi (- 1075) < a / b)
              \<and> (v = Fin 0 \<longleftrightarrow> a / b \<le> 2 powi (- 1075)))))
   \<and> ((\<exists>ps. update inp = Problems ps \<and> ''Net odds (b) must be > 0.'' \<in> set ps)
        \<longleftrightarrow> parseNetOdds (oddsEl inp) (oddsFormatEl inp) = Some (Fin 0))"
proof -
  have sign: "jge v (Fin 0) \<and> (f = ''decimal'' \<longrightarrow> jgt v (Fin 0))"
    if "parseNetOdds s f = Some v" for s f v
    using parseNetOdds_cases [OF that] by (auto simp add: jge_def jgt_def jle_def jlt_def)
  have frac: "\<exists>x y a b. js_split CHR ''/'' (js_trim s) = [x, y]
      \<and> js_Number (js_trim x) = Fin a \<and> js_Number (js_trim y) = Fin b
      \<and> 0 < a \<and> 0 < b \<and> v = jdiv (Fin a) (Fin b)
      \<and> (jgt v (Fin 0) \<longleftrightarrow> 2 powi (- 1075) < a / b)
      \<and> (v = Fin 0 \<longleftrightarrow> a / b \<le> 2 powi (- 1075))"
    if h: "parseNetOdds s f = Some v" "f \<noteq> ''decimal''"
  proof -
    obtain x y a b where xy: "js_split CHR ''/'' (js_trim s) = [x, y]"
      and ab: "js_Number (js_trim x) = Fin a" "js_Number (js_trim y) = Fin b" "0 < a" "0 < b"
      and v: "v = jdiv (Fin a) (Fin b)" "v = fl (a / b)"
      using parseNetOdds_fractional [OF h] by blast
    have q: "0 < a / b" using ab(3,4) by simp
    have "jgt v (Fin 0) \<longleftrightarrow> 2 powi (- 1075) < a / b"
      unfolding v(2) using q by (rule fl_pos_sign)
    moreover have "v = Fin 0 \<longleftrightarrow> a / b \<le> 2 powi (- 1075)"
      unfolding v(2) using q by (rule fl_pos_zero_iff)
    ultimately show ?thesis using xy ab v(1) by blast
  qed
  let ?p = "parseProbability (pEl inp) (pFormatEl inp)"
  let ?b = "parseNetOdds (oddsEl inp) (oddsFormatEl inp)"
  have mem: "''Net odds (b) must be > 0.'' \<in> set (problems_of p b)
      \<longleftrightarrow> (\<exists>y. b = Some y \<and> jle y (Fin 0))" for p b
    by (cases b) (simp_all add: problems_of_def)
  have zero: "(\<exists>y. ?b = Some y \<and> jle y (Fin 0)) \<longleftrightarrow> ?b = Some (Fin 0)"
  proof
    assume "\<exists>y. ?b = Some y \<and> jle y (Fin 0)"
    then obtain y where y: "?b = Some y" "jle y (Fin 0)" by blast
    from parseNetOdds_cases [OF y(1)] y(2) have "y = Fin 0" by (auto simp add: jle_def)
    with y(1) show "?b = Some (Fin 0)" by simp
  next
    assume "?b = Some (Fin 0)"
    then show "\<exists>y. ?b = Some y \<and> jle y (Fin 0)" by (simp add: jle_def)
  qed
  have upd: "(\<exists>ps. update inp = Problems ps \<and> ''Net odds (b) must be > 0.'' \<in> set ps)
      \<longleftrightarrow> ''Net odds (b) must be > 0.'' \<in> set (problems_of ?p ?b)"
    by (cases ?p; cases ?b) (auto simp add: update_def Let_def)
  have first: "parseNetOdds s f = Some v \<longrightarrow>
      jge v (Fin 0)
      \<and> (f = ''decimal'' \<longrightarrow> jgt v (Fin 0))
      \<and> (f \<noteq> ''decimal'' \<longrightarrow>
           (\<exists>x y a b. js_split CHR ''/'' (js_trim s) = [x, y]
              \<and> js_Number (js_trim x) = Fin a \<and> js_Number (js_trim y) = Fin b
              \<and> 0 < a \<and> 0 < b \<and> v = jdiv (Fin a) (Fin b)
              \<and> (jgt v (Fin 0) \<longleftrightarrow> 2 powi (- 1075) < a / b)
              \<and> (v = Fin 0 \<longleftrightarrow> a / b \<le> 2 powi (- 1075))))"
    using sign [of s f v] frac by blast
  have second: "(\<exists>ps. update inp = Problems ps \<and> ''Net odds (b) must be > 0.'' \<in> set ps)
      \<longleftrightarrow> ?b = Some (Fin 0)"
    using upd mem [of ?p ?b] zero by blast
  from first second show ?thesis by (rule conjI)
qed

theorem parseNetOdds_sign_witness:
  "parseNetOdds ''2.10'' ''decimal'' = Some (Fin (2476979795053773 / 2251799813685248))
   \<and> jgt (Fin (2476979795053773 / 2251799813685248)) (Fin 0)
   \<and> parseNetOdds ''11/10'' ''fractional'' = Some (Fin (2476979795053773 / 2251799813685248))
   \<and> ''fractional'' \<noteq> ''decimal''
   \<and> (\<exists>a b. 0 < a \<and> 0 < b
         \<and> Fin (2476979795053773 / 2251799813685248) = jdiv (Fin a) (Fin b)
         \<and> 2 powi (- 1075) < a / b)
   \<and> parseNetOdds ''1e-200/1e200'' ''fractional'' = Some (Fin 0)
   \<and> (\<exists>a b. 0 < a \<and> 0 < b \<and> Fin 0 = jdiv (Fin a) (Fin b) \<and> a / b \<le> 2 powi (- 1075))
   \<and> (\<exists>ps. update scenario_underflow = Problems ps \<and> ''Net odds (b) must be > 0.'' \<in> set ps)"
proof -
  let ?B = "Fin (2476979795053773 / 2251799813685248)"
  have ne: "''fractional'' \<noteq> ''decimal''" by simp
  have pos: "jgt ?B (Fin 0)"
    using parseNetOdds_sign [of "''2.10''" "''decimal''" ?B scenario1] ex_b_decimal by blast
  have "\<exists>a b. 0 < a \<and> 0 < b \<and> ?B = jdiv (Fin a) (Fin b) \<and> (jgt ?B (Fin 0) \<longleftrightarrow> 2 powi (- 1075) < a / b)"
    using parseNetOdds_sign [of "''11/10''" "''fractional''" ?B scenario1] ex_b_fractional ne
    by blast
  with pos have frac: "\<exists>a b. 0 < a \<and> 0 < b \<and> ?B = jdiv (Fin a) (Fin b) \<and> 2 powi (- 1075) < a / b"
    by blast
  have "\<exists>a b. 0 < a \<and> 0 < b \<and> Fin 0 = jdiv (Fin a) (Fin b)
      \<and> (Fin 0 = Fin 0 \<longleftrightarrow> a / b \<le> 2 powi (- 1075))"
    using parseNetOdds_sign [of "''1e-200/1e200''" "''fractional''" "Fin 0" scenario1]
      underflow_odds ne by blast
  then have under: "\<exists>a b. 0 < a \<and> 0 < b \<and> Fin 0 = jdiv (Fin a) (Fin b) \<and> a / b \<le> 2 powi (- 1075)"
    by blast
  have "parseNetOdds (oddsEl scenario_underflow) (oddsFormatEl scenario_underflow) = Some (Fin 0)"
    by (simp add: scenario_underflow_def underflow_odds)
  then have fires: "\<exists>ps. update scenario_underflow = Problems ps
      \<and> ''Net odds (b) must be > 0.'' \<in> set ps"
    using parseNetOdds_sign [of "''2.10''" "''decimal''" ?B scenario_underflow] by blast
  from ex_b_decimal pos ex_b_fractional ne frac underflow_odds under fires show ?thesis by blast
qed

text \<open>
  C3: for every finite multiplier \<open>k\<close>, so for every real \<open>k \<ge> 0\<close>, and every clamped
  fraction computed on the success path, the applied fraction
  \<open>clamp(k * fStarClamped, 0, 0.9999)\<close> lies in the closed interval from 0 to \<open>0.9999\<close>.
\<close>

theorem fApplied_in_range:
  assumes "update inp = Outputs r" and "Number_isFinite (js_Number (fractionalEl inp))"
  shows "res_fApplied r
           = clamp (jmul (js_Number (fractionalEl inp)) (res_fStarClamped r)) (Fin 0)
               (fl (9999 / 10000))
         \<and> jle (Fin 0) (res_fApplied r) \<and> jle (res_fApplied r) (fl (9999 / 10000))"
proof -
  let ?k = "js_Number (fractionalEl inp)"
  obtain x y where xy: "0 < x" "x < 1" "0 < y" "is_double (Fin y)"
    and r: "r = compute (Fin x) (Fin y) ?k (bankrollEl inp)"
    using update_Outputs [OF assms(1)] by blast
  obtain c where c: "Math_max (Fin 0) (kellyFraction (Fin x) (Fin y)) = Fin c"
    using Math_max_zero_bounded [OF kellyFraction_bounded [OF xy]] by blast
  have raw: "jmul ?k (Fin c) \<noteq> NaN"
    using assms(2) by (intro jmul_finite_not_NaN) (simp_all add: Number_isFinite_def)
  have eq: "res_fApplied r = clamp (jmul ?k (res_fStarClamped r)) (Fin 0) (fl (9999 / 10000))"
    by (simp add: r compute_def Let_def)
  have sc: "res_fStarClamped r = Fin c" by (simp add: r compute_def Let_def c)
  obtain z where "clamp (jmul ?k (Fin c)) (Fin 0) (Fin (4503149267407759 / 4503599627370496)) = Fin z"
    "0 \<le> z" "z \<le> 4503149267407759 / 4503599627370496"
    using clamp_range [OF _ raw, of "4503149267407759 / 4503599627370496"] by auto
  then have "jle (Fin 0) (res_fApplied r) \<and> jle (res_fApplied r) (fl (9999 / 10000))"
    unfolding eq sc fl_9999 by (simp add: jle_def)
  with eq show ?thesis by blast
qed

theorem fApplied_in_range_witness:
  "\<exists>r. update scenario1 = Outputs r \<and> Number_isFinite (js_Number (fractionalEl scenario1))
       \<and> jle (Fin 0) (res_fApplied r) \<and> jle (res_fApplied r) (fl (9999 / 10000))"
proof -
  obtain r where r: "update scenario1 = Outputs r" using scenario1_outputs by blast
  have k: "Number_isFinite (js_Number (fractionalEl scenario1))"
    by (simp add: scenario1_def num_1 Number_isFinite_def)
  from fApplied_in_range [OF r k] r k show ?thesis by blast
qed

text \<open>
  C2: on the success path of \<^verbatim>\<open>update\<close> (the probability strictly between 0 and 1 and
  the net odds strictly positive) the growth is always present:
  \<^verbatim>\<open>expectedLogGrowth(p, b, fApplied)\<close> does not return \<^verbatim>\<open>null\<close>, whatever the multiplier
  and the bankroll, because the applied fraction, when it is a number, is clamped and
  leaves \<open>1 + fApplied * b > 0\<close> and \<open>1 - fApplied > 0\<close>.
\<close>

theorem growth_always_present:
  assumes "update inp = Outputs r"
  shows "res_g r \<noteq> None
    \<and> (res_fApplied r \<noteq> NaN \<longrightarrow>
         jgt (jadd (Fin 1) (jmul (res_fApplied r) (res_b r))) (Fin 0)
         \<and> jgt (jsub (Fin 1) (res_fApplied r)) (Fin 0))"
proof -
  let ?k = "js_Number (fractionalEl inp)"
  obtain x y where xy: "0 < y"
    and r: "r = compute (Fin x) (Fin y) ?k (bankrollEl inp)"
    using update_Outputs [OF assms] by blast
  let ?f = "res_fApplied r"
  have g: "res_g r = expectedLogGrowth (Fin x) (Fin y) ?f"
    by (simp add: r compute_def Let_def)
  have b: "res_b r = Fin y" by (simp add: r compute_def Let_def)
  have "?f = clamp (res_fAppliedRaw r) (Fin 0) (Fin (4503149267407759 / 4503599627370496))"
    by (simp add: r compute_def Let_def fl_9999)
  then consider "?f = NaN"
    | z where "?f = Fin z" "0 \<le> z" "z \<le> 4503149267407759 / 4503599627370496"
    using clamp_cases [of "4503149267407759 / 4503599627370496" "res_fAppliedRaw r"] by auto
  then show ?thesis
  proof cases
    case 1
    then show ?thesis using g expectedLogGrowth_NaN by simp
  next
    case 2
    then show ?thesis
      using g b expectedLogGrowth_defined [OF xy 2(2,3)] growth_factors_positive [OF xy 2(2,3)]
      by simp
  qed
qed

theorem growth_always_present_witness:
  "\<exists>r. update scenario1 = Outputs r \<and> res_g r \<noteq> None \<and> res_fApplied r \<noteq> NaN
       \<and> jgt (jsub (Fin 1) (res_fApplied r)) (Fin 0)"
proof -
  obtain r where r: "update scenario1 = Outputs r"
    "res_fApplied r = Fin (5076785034490381 / 36028797018963968)"
    using scenario1_outputs by blast
  have "res_fApplied r \<noteq> NaN" by (simp add: r(2))
  with growth_always_present [OF r(1)] r(1) show ?thesis by blast
qed

text \<open>
  C6: for numbers \<open>p\<close>, \<open>b\<close> and \<open>f\<close>, \<^verbatim>\<open>expectedLogGrowth(p, b, f)\<close> is \<^verbatim>\<open>null\<close> exactly
  when \<open>f \<ge> 1\<close> or \<open>f * b \<le> -1\<close>, that is when \<open>1 - f \<le> 0\<close> or \<open>1 + f * b \<le> 0\<close>; in
  every other case, for \<open>p\<close> in \<open>(0,1)\<close> and a finite \<open>b > 0\<close>, it is the finite number
  \<open>p * ln(1 + f * b) + (1 - p) * ln(1 - f)\<close>.  Here \<open>f\<close> and \<open>b\<close> are binary64 values,
  and \<open>f\<close> is not NaN where the result is said to be finite.
\<close>

theorem expectedLogGrowth_null_or_finite:
  assumes "is_double f"
  shows "(expectedLogGrowth p b f = None \<longleftrightarrow> jge f (Fin 1) \<or> jle (jmul f b) (Fin (- 1)))
    \<and> (jge f (Fin 1) \<longleftrightarrow> jle (jsub (Fin 1) f) (Fin 0))
    \<and> (jle (jmul f b) (Fin (- 1)) \<longleftrightarrow> jle (jadd (Fin 1) (jmul f b)) (Fin 0))
    \<and> (jlt (Fin 0) p \<and> jlt p (Fin 1) \<and> jlt (Fin 0) b \<and> Number_isFinite b \<and> is_double b
         \<and> f \<noteq> NaN \<and> \<not> jge f (Fin 1) \<and> \<not> jle (jmul f b) (Fin (- 1))
       \<longrightarrow> (\<exists>g. expectedLogGrowth p b f = Some g \<and> Number_isFinite g
              \<and> g = jadd (jmul p (Math_log (jadd (Fin 1) (jmul f b))))
                         (jmul (jsub (Fin 1) p) (Math_log (jsub (Fin 1) f)))))"
proof -
  let ?g = "jadd (jmul p (Math_log (jadd (Fin 1) (jmul f b))))
      (jmul (jsub (Fin 1) p) (Math_log (jsub (Fin 1) f)))"
  have w: "jle (jadd (Fin 1) (jmul f b)) (Fin 0) = jle (jmul f b) (Fin (- 1))"
    by (rule winFactor_sign) (rule is_double_jmul)
  have l: "jle (jsub (Fin 1) f) (Fin 0) = jge f (Fin 1)"
    using assms by (rule loseFactor_sign)
  have e: "expectedLogGrowth p b f
      = (if jle (jmul f b) (Fin (- 1)) \<or> jge f (Fin 1) then None else Some ?g)"
    unfolding expectedLogGrowth_def Let_def w l by (rule refl)
  have null: "expectedLogGrowth p b f = None \<longleftrightarrow> jge f (Fin 1) \<or> jle (jmul f b) (Fin (- 1))"
    unfolding e by auto
  have fin: "expectedLogGrowth p b f = Some ?g \<and> Number_isFinite ?g"
    if h: "jlt (Fin 0) p" "jlt p (Fin 1)" "jlt (Fin 0) b" "Number_isFinite b" "is_double b"
      "f \<noteq> NaN" "\<not> jge f (Fin 1)" "\<not> jle (jmul f b) (Fin (- 1))"
  proof -
    from h(1,2) obtain x where x: "p = Fin x" "0 < x" "x < 1"
      by (cases p) (simp_all add: jlt_def)
    from h(3,4) obtain y where y: "b = Fin y" "0 < y"
      by (cases b) (simp_all add: jlt_def Number_isFinite_def)
    have d: "is_double (Fin y)" using h(5) unfolding y(1) .
    have n: "\<not> jle (jmul f (Fin y)) (Fin (- 1))" using h(8) unfolding y(1) .
    have "is_fin ?g"
      unfolding x(1) y(1) using x(2,3) y(2) d assms h(6,7) n by (rule expectedLogGrowth_finite)
    then have "Number_isFinite ?g" by (simp only: Number_isFinite_def)
    moreover have "expectedLogGrowth p b f = Some ?g" unfolding e using h(7,8) by simp
    ultimately show ?thesis by blast
  qed
  from null fin w l show ?thesis by blast
qed

theorem expectedLogGrowth_null_or_finite_witness:
  "is_double (Fin (1 / 2))
   \<and> (\<exists>g. expectedLogGrowth (Fin (1 / 2)) (Fin 1) (Fin (1 / 2)) = Some g \<and> Number_isFinite g)
   \<and> is_double (Fin 1)
   \<and> expectedLogGrowth (Fin (1 / 2)) (Fin 1) (Fin 1) = None"
proof -
  have d: "is_double (Fin (1 / 2))" "is_double (Fin 1)" by (simp_all add: fl_half fl_one)
  have m: "jmul (Fin (1 / 2)) (Fin 1) = Fin (1 / 2)"
    using jmul_Fin [of "1 / 2" 1] by (simp add: fl_half)
  have prem: "jlt (Fin 0) (Fin (1 / 2)) \<and> jlt (Fin (1 / 2)) (Fin 1) \<and> jlt (Fin 0) (Fin 1)
      \<and> Number_isFinite (Fin 1) \<and> is_double (Fin 1) \<and> Fin (1 / 2) \<noteq> NaN
      \<and> \<not> jge (Fin (1 / 2)) (Fin 1) \<and> \<not> jle (jmul (Fin (1 / 2)) (Fin 1)) (Fin (- 1))"
    unfolding m by (simp add: jlt_def jge_def jle_def Number_isFinite_def fl_one)
  have "\<exists>g. expectedLogGrowth (Fin (1 / 2)) (Fin 1) (Fin (1 / 2)) = Some g \<and> Number_isFinite g"
    using expectedLogGrowth_null_or_finite [OF d(1), of "Fin (1 / 2)" "Fin 1"] prem by blast
  moreover have "jge (Fin 1) (Fin 1)" by (simp add: jge_def jle_def)
  then have "expectedLogGrowth (Fin (1 / 2)) (Fin 1) (Fin 1) = None"
    using expectedLogGrowth_null_or_finite [OF d(2), of "Fin (1 / 2)" "Fin 1"] by blast
  ultimately show ?thesis using d by blast
qed

end
